theory Spec2Isabelle
  imports Complex_Main "HOL-Library.Word"
begin

unbundle bit_operations_syntax

section \<open>Python values and their JSON text\<close>

text \<open>
  The exceptions that the core raises or meets, each with its message.
\<close>

datatype py_error = ValueError string | TypeError string

definition error_text :: "py_error \<Rightarrow> string" where
  "error_text e = (case e of ValueError m \<Rightarrow> m | TypeError m \<Rightarrow> m)"

text \<open>
  The payload of a provenance node is a Python dict from strings to arbitrary values,
  and the engine reads it in one way only, through \<^verbatim>\<open>json.dumps(..., sort_keys=True)\<close>. A
  value is therefore held by what \<^verbatim>\<open>json.dumps\<close> makes of it. A Python \<^verbatim>\<open>str\<close> is a list of
  code points below 256. A finite \<^verbatim>\<open>float\<close> is held as its \<^verbatim>\<open>repr\<close>, the text that
  \<^verbatim>\<open>json.dumps\<close> writes for it; the three others are written \<^verbatim>\<open>Infinity\<close>, \<^verbatim>\<open>-Infinity\<close>
  and \<^verbatim>\<open>NaN\<close>. A dict is an association list in insertion order with strings as keys.
  \<open>PRaises e\<close> is a value on which \<^verbatim>\<open>json.dumps\<close> raises \<open>e\<close>: an object of a type it does
  not know (a set, a datetime, bytes), a dict whose keys cannot be sorted against each
  other or are of no basic type (\<^verbatim>\<open>TypeError\<close>), a container that contains itself
  (\<^verbatim>\<open>ValueError\<close>).
\<close>

datatype pyfloat = FloatRepr string | FloatInf | FloatNegInf | FloatNaN

datatype pyval =
    PNone
  | PBool bool
  | PInt int
  | PFloat pyfloat
  | PStr string
  | PList "pyval list"
  | PTuple "pyval list"
  | PDict "(string \<times> pyval) list"
  | PRaises py_error

type_synonym pydict = "(string \<times> pyval) list"

definition hex_digit :: "nat \<Rightarrow> char" where
  "hex_digit d = (''0123456789abcdef'') ! (d mod 16)"

text \<open>\<^verbatim>\<open>json.encoder.py_encode_basestring_ascii\<close>: the escapes of one character.\<close>

definition json_escape_char :: "char \<Rightarrow> string" where
  "json_escape_char c =
     (if c = CHR 0x5C then [CHR 0x5C, CHR 0x5C]
      else if c = CHR 0x22 then [CHR 0x5C, CHR 0x22]
      else if c = CHR 0x08 then [CHR 0x5C, CHR ''b'']
      else if c = CHR 0x0C then [CHR 0x5C, CHR ''f'']
      else if c = CHR 0x0A then [CHR 0x5C, CHR ''n'']
      else if c = CHR 0x0D then [CHR 0x5C, CHR ''r'']
      else if c = CHR 0x09 then [CHR 0x5C, CHR ''t'']
      else if (of_char c :: nat) < 32 \<or> 126 < (of_char c :: nat)
        then [CHR 0x5C] @ ''u00'' @ [hex_digit (of_char c div 16), hex_digit (of_char c mod 16)]
      else [c])"

definition json_str :: "string \<Rightarrow> string" where
  "json_str s = [CHR 0x22] @ concat (map json_escape_char s) @ [CHR 0x22]"

function dec_digits :: "nat \<Rightarrow> string" where
  "dec_digits n =
     (if n < 10 then [hex_digit n] else dec_digits (n div 10) @ [hex_digit (n mod 10)])"
  by pat_completeness auto
termination
  by (relation "measure (\<lambda>n. n)") auto

declare dec_digits.simps [simp del]

definition json_int :: "int \<Rightarrow> string" where
  "json_int i = (if i < 0 then ''-'' @ dec_digits (nat (- i)) else dec_digits (nat i))"

definition json_float :: "pyfloat \<Rightarrow> string" where
  "json_float f =
     (case f of FloatRepr r \<Rightarrow> r | FloatInf \<Rightarrow> ''Infinity''
      | FloatNegInf \<Rightarrow> ''-Infinity'' | FloatNaN \<Rightarrow> ''NaN'')"

text \<open>Python compares strings by code point, lexicographically.\<close>

fun str_less :: "string \<Rightarrow> string \<Rightarrow> bool" where
  "str_less [] [] = False"
| "str_less [] (y # ys) = True"
| "str_less (x # xs) [] = False"
| "str_less (x # xs) (y # ys) =
     (if (of_char x :: nat) < of_char y then True
      else if (of_char y :: nat) < of_char x then False
      else str_less xs ys)"

text \<open>\<^verbatim>\<open>sorted\<close> on strings, and on dict items by key: a stable insertion sort.\<close>

fun insert_by_key :: "string \<times> 'a \<Rightarrow> (string \<times> 'a) list \<Rightarrow> (string \<times> 'a) list" where
  "insert_by_key x [] = [x]"
| "insert_by_key x (y # ys) =
     (if str_less (fst x) (fst y) then x # y # ys else y # insert_by_key x ys)"

definition sort_by_key :: "(string \<times> 'a) list \<Rightarrow> (string \<times> 'a) list" where
  "sort_by_key kvs = foldl (\<lambda>acc kv. insert_by_key kv acc) [] kvs"

definition sorted_strs :: "string list \<Rightarrow> string list" where
  "sorted_strs xs = map fst (sort_by_key (map (\<lambda>x. (x, ())) xs))"

fun join_with :: "string \<Rightarrow> string list \<Rightarrow> string" where
  "join_with sep [] = []"
| "join_with sep [x] = x"
| "join_with sep (x # y # ys) = x @ sep @ join_with sep (y # ys)"

text \<open>
  The texts of the items of a container, in order, or the first exception among them:
  the encoder writes the items from left to right and stops at the first that raises.
\<close>

fun first_error :: "(py_error + 'a) list \<Rightarrow> py_error + 'a list" where
  "first_error [] = Inr []"
| "first_error (r # rs) =
     (case r of
        Inl e \<Rightarrow> Inl e
      | Inr x \<Rightarrow> (case first_error rs of Inl e \<Rightarrow> Inl e | Inr xs \<Rightarrow> Inr (x # xs)))"

text \<open>
  \<^verbatim>\<open>json.dumps(v, sort_keys=True)\<close> with the default separators and \<^verbatim>\<open>ensure_ascii\<close>: the
  text, or the exception raised. A tuple is written as a JSON array, exactly as a list
  is. The items of a dict are sorted by key and then written in that order.
\<close>

fun json_dumps :: "pyval \<Rightarrow> py_error + string" where
  "json_dumps PNone = Inr ''null''"
| "json_dumps (PBool b) = Inr (if b then ''true'' else ''false'')"
| "json_dumps (PInt i) = Inr (json_int i)"
| "json_dumps (PFloat f) = Inr (json_float f)"
| "json_dumps (PStr s) = Inr (json_str s)"
| "json_dumps (PList xs) =
     (case first_error (map json_dumps xs) of
        Inl e \<Rightarrow> Inl e
      | Inr ts \<Rightarrow> Inr (''['' @ join_with '', '' ts @ '']''))"
| "json_dumps (PTuple xs) =
     (case first_error (map json_dumps xs) of
        Inl e \<Rightarrow> Inl e
      | Inr ts \<Rightarrow> Inr (''['' @ join_with '', '' ts @ '']''))"
| "json_dumps (PDict kvs) =
     (case first_error
             (map (\<lambda>kr. case snd kr of
                            Inl e \<Rightarrow> Inl e
                          | Inr t \<Rightarrow> Inr (json_str (fst kr) @ '': '' @ t))
                (sort_by_key (map (\<lambda>kv. (fst kv, json_dumps (snd kv))) kvs))) of
        Inl e \<Rightarrow> Inl e
      | Inr ts \<Rightarrow> Inr (''{'' @ join_with '', '' ts @ ''}''))"
| "json_dumps (PRaises e) = Inl e"

section \<open>SHA-256\<close>

text \<open>\<^verbatim>\<open>hashlib.sha256(bytes).hexdigest()\<close> (FIPS 180-4), on the bytes of an ASCII text.\<close>

type_synonym u32 = "32 word"

text \<open>
  The round constants (the first 32 bits of the fractional parts of the cube roots of
  the first 64 primes) and the initial hash value (those of the square roots of the
  first 8 primes), in decimal.
\<close>

definition sha_k :: "u32 list" where
  "sha_k =
    [1116352408, 1899447441, 3049323471, 3921009573, 961987163, 1508970993,
     2453635748, 2870763221, 3624381080, 310598401, 607225278, 1426881987,
     1925078388, 2162078206, 2614888103, 3248222580, 3835390401, 4022224774,
     264347078, 604807628, 770255983, 1249150122, 1555081692, 1996064986,
     2554220882, 2821834349, 2952996808, 3210313671, 3336571891, 3584528711,
     113926993, 338241895, 666307205, 773529912, 1294757372, 1396182291,
     1695183700, 1986661051, 2177026350, 2456956037, 2730485921, 2820302411,
     3259730800, 3345764771, 3516065817, 3600352804, 4094571909, 275423344,
     430227734, 506948616, 659060556, 883997877, 958139571, 1322822218,
     1537002063, 1747873779, 1955562222, 2024104815, 2227730452, 2361852424,
     2428436474, 2756734187, 3204031479, 3329325298]"

definition sha_h0 :: "u32 list" where
  "sha_h0 =
    [1779033703, 3144134277, 1013904242, 2773480762,
     1359893119, 2600822924, 528734635, 1541459225]"

definition sha_pad :: "string \<Rightarrow> nat list" where
  "sha_pad s =
     (let n = length s;
          z = (119 - n mod 64) mod 64
      in map of_char s @ [128] @ replicate z 0 @
         map (\<lambda>i. unat (drop_bit (8 * (7 - i)) (word_of_nat (8 * n) :: 64 word) AND 255)) [0..<8])"

fun sha_blocks :: "nat \<Rightarrow> nat list \<Rightarrow> nat list list" where
  "sha_blocks 0 bs = []"
| "sha_blocks (Suc k) bs = take 64 bs # sha_blocks k (drop 64 bs)"

fun be_words :: "nat \<Rightarrow> nat list \<Rightarrow> u32 list" where
  "be_words 0 bs = []"
| "be_words (Suc k) bs =
     foldl (\<lambda>a b. push_bit 8 a + word_of_nat b) 0 (take 4 bs) # be_words k (drop 4 bs)"

definition sha_schedule :: "u32 list \<Rightarrow> u32 list" where
  "sha_schedule w16 =
     foldl (\<lambda>w t.
        let s0 = word_rotr 7 (w ! (t - 15)) XOR word_rotr 18 (w ! (t - 15)) XOR drop_bit 3 (w ! (t - 15));
            s1 = word_rotr 17 (w ! (t - 2)) XOR word_rotr 19 (w ! (t - 2)) XOR drop_bit 10 (w ! (t - 2))
        in w @ [w ! (t - 16) + s0 + w ! (t - 7) + s1]) w16 [16..<64]"

definition sha_round :: "u32 list \<Rightarrow> u32 \<times> u32 \<Rightarrow> u32 list" where
  "sha_round st kw =
     (let a = st ! 0; b = st ! 1; c = st ! 2; d = st ! 3;
          e = st ! 4; f = st ! 5; g = st ! 6; h = st ! 7;
          s1 = word_rotr 6 e XOR word_rotr 11 e XOR word_rotr 25 e;
          ch = (e AND f) XOR (NOT e AND g);
          t1 = h + s1 + ch + fst kw + snd kw;
          s0 = word_rotr 2 a XOR word_rotr 13 a XOR word_rotr 22 a;
          mj = (a AND b) XOR (a AND c) XOR (b AND c);
          t2 = s0 + mj
      in [t1 + t2, a, b, c, d + t1, e, f, g])"

definition sha_compress :: "u32 list \<Rightarrow> nat list \<Rightarrow> u32 list" where
  "sha_compress hs block =
     map2 (+) hs (foldl sha_round hs (zip sha_k (sha_schedule (be_words 16 block))))"

definition hex_u32 :: "u32 \<Rightarrow> string" where
  "hex_u32 w = map (\<lambda>i. hex_digit (unat (drop_bit (4 * (7 - i)) w AND 15))) [0..<8]"

definition sha256_hexdigest :: "string \<Rightarrow> string" where
  "sha256_hexdigest s =
     (let bs = sha_pad s
      in concat (map hex_u32 (foldl sha_compress sha_h0 (sha_blocks (length bs div 64) bs))))"

section \<open>The provenance engine\<close>

text \<open>
  \<^verbatim>\<open>ProvenanceNode\<close> and \<^verbatim>\<open>ProvenanceChain\<close> of \<^verbatim>\<open>core/types.py\<close>. A timestamp is held as
  its \<^verbatim>\<open>isoformat()\<close> text, the only way the engine reads it. The chain's \<^verbatim>\<open>created_at\<close>
  and \<^verbatim>\<open>metadata\<close> fields are never read by the engine and are left out.
\<close>

record node =
  node_id :: string
  node_type :: string
  timestamp :: string
  data :: pydict
  parent_ids :: "string list"
  hash :: string

record chain =
  session_id :: string
  nodes :: "node list"
  root_hash :: string

text \<open>The engine's state is its \<^verbatim>\<open>_chains\<close> dict.\<close>

type_synonym chains = "string \<rightharpoonup> chain"

text \<open>
  \<^verbatim>\<open>ProvenanceEngine._compute_hash\<close>: the canonical text \<^verbatim>\<open>content_json\<close> of a node, and
  its digest. Either is the exception of \<^verbatim>\<open>json.dumps\<close> when the payload cannot be written.
\<close>

definition content_json :: "node \<Rightarrow> py_error + string" where
  "content_json n =
     (let content = PDict
            [(''node_id'', PStr (node_id n)),
             (''node_type'', PStr (node_type n)),
             (''timestamp'', PStr (timestamp n)),
             (''data'', PDict (data n)),
             (''parent_ids'', PList (map PStr (sorted_strs (parent_ids n))))]
      in json_dumps content)"

definition compute_hash :: "node \<Rightarrow> py_error + string" where
  "compute_hash n =
     (case content_json n of
        Inl e \<Rightarrow> Inl e
      | Inr text \<Rightarrow> Inr (sha256_hexdigest text))"

text \<open>
  \<^verbatim>\<open>ProvenanceEngine.create_session\<close>. The values read from the environment are arguments:
  \<open>uuid\<close> is \<^verbatim>\<open>str(uuid4())\<close>, \<open>ts\<close> the node's \<^verbatim>\<open>utcnow()\<close> and \<open>created\<close> the
  \<^verbatim>\<open>utcnow().isoformat()\<close> stored in the payload. The payload of the genesis node holds
  two strings, which \<^verbatim>\<open>json.dumps\<close> always writes: hashing it never raises (lemma
  \<open>compute_hash_genesis\<close> below), and the branch for an exception is never taken.
\<close>

definition create_session ::
  "chains \<Rightarrow> string option \<Rightarrow> string \<Rightarrow> string \<Rightarrow> string \<Rightarrow> string \<times> chains" where
  "create_session cs sid_opt uuid ts created =
     (let sid = (case sid_opt of None \<Rightarrow> uuid | Some s \<Rightarrow> s);
          genesis = \<lparr>node_id = sid @ ''_genesis'', node_type = ''genesis'', timestamp = ts,
                     data = [(''session_id'', PStr sid), (''created_at'', PStr created)],
                     parent_ids = [], hash = []\<rparr>;
          genesis = genesis\<lparr>hash := (case compute_hash genesis of Inr h \<Rightarrow> h | Inl e \<Rightarrow> [])\<rparr>;
          ch = \<lparr>session_id = sid, nodes = [genesis], root_hash = hash genesis\<rparr>
      in (sid, cs(sid \<mapsto> ch)))"

text \<open>
  \<^verbatim>\<open>ProvenanceEngine._add_node\<close>: the new node id, and the engine afterwards. It raises
  for an untracked session, and it raises what \<^verbatim>\<open>_compute_hash\<close> raises, before anything
  is appended.
\<close>

definition add_node ::
  "chains \<Rightarrow> string \<Rightarrow> string \<Rightarrow> pydict \<Rightarrow> string \<Rightarrow> string \<Rightarrow> string
     \<Rightarrow> py_error + (string \<times> chains)" where
  "add_node cs sid ntype d parent_id uuid ts =
     (let nid = sid @ ''_'' @ uuid
      in case cs sid of
           None \<Rightarrow> Inl (ValueError (''Session '' @ sid @ '' not found''))
         | Some ch \<Rightarrow>
             let n = \<lparr>node_id = nid, node_type = ntype, timestamp = ts, data = d,
                      parent_ids = [parent_id], hash = []\<rparr>
             in case compute_hash n of
                  Inl e \<Rightarrow> Inl e
                | Inr h \<Rightarrow>
                    Inr (nid, cs(sid \<mapsto> ch\<lparr>nodes := nodes ch @ [n\<lparr>hash := h\<rparr>]\<rparr>)))"

text \<open>
  \<^verbatim>\<open>record_intent\<close>: \<^verbatim>\<open>parent_id or f"{session_id}_genesis"\<close> takes the genesis node for
  \<^verbatim>\<open>None\<close> and for the empty string.
\<close>

definition record_intent ::
  "chains \<Rightarrow> string \<Rightarrow> pydict \<Rightarrow> string option \<Rightarrow> string \<Rightarrow> string
     \<Rightarrow> py_error + (string \<times> chains)" where
  "record_intent cs sid intent_data parent_id uuid ts =
     add_node cs sid ''intent'' intent_data
       (case parent_id of
          None \<Rightarrow> sid @ ''_genesis''
        | Some p \<Rightarrow> if p = [] then sid @ ''_genesis'' else p) uuid ts"

definition record_plan ::
  "chains \<Rightarrow> string \<Rightarrow> pydict \<Rightarrow> string \<Rightarrow> string \<Rightarrow> string \<Rightarrow> py_error + (string \<times> chains)" where
  "record_plan cs sid plan_data parent_id uuid ts =
     add_node cs sid ''plan'' plan_data parent_id uuid ts"

definition record_step ::
  "chains \<Rightarrow> string \<Rightarrow> pydict \<Rightarrow> string \<Rightarrow> string \<Rightarrow> string \<Rightarrow> py_error + (string \<times> chains)" where
  "record_step cs sid step_data parent_id uuid ts =
     add_node cs sid ''step'' step_data parent_id uuid ts"

definition record_result ::
  "chains \<Rightarrow> string \<Rightarrow> pydict \<Rightarrow> string \<Rightarrow> string \<Rightarrow> string \<Rightarrow> py_error + (string \<times> chains)" where
  "record_result cs sid result_data parent_id uuid ts =
     add_node cs sid ''result'' result_data parent_id uuid ts"

text \<open>\<^verbatim>\<open>record_synthesis\<close>: its own copy of the append, with a list of parents.\<close>

definition record_synthesis ::
  "chains \<Rightarrow> string \<Rightarrow> pydict \<Rightarrow> string list \<Rightarrow> string \<Rightarrow> string
     \<Rightarrow> py_error + (string \<times> chains)" where
  "record_synthesis cs sid synthesis_data pids uuid ts =
     (let nid = sid @ ''_'' @ uuid
      in case cs sid of
           None \<Rightarrow> Inl (ValueError (''Session '' @ sid @ '' not found''))
         | Some ch \<Rightarrow>
             let n = \<lparr>node_id = nid, node_type = ''synthesis'', timestamp = ts,
                      data = synthesis_data, parent_ids = pids, hash = []\<rparr>
             in case compute_hash n of
                  Inl e \<Rightarrow> Inl e
                | Inr h \<Rightarrow>
                    Inr (nid, cs(sid \<mapsto> ch\<lparr>nodes := nodes ch @ [n\<lparr>hash := h\<rparr>]\<rparr>)))"

text \<open>
  \<^verbatim>\<open>verify_chain\<close>: the inner loop over a node's parents, the loop over the nodes. The
  verdict, or the exception that \<^verbatim>\<open>_compute_hash\<close> raises on the first node whose payload
  cannot be written.
\<close>

fun parents_exist :: "node list \<Rightarrow> string list \<Rightarrow> bool" where
  "parents_exist all_nodes [] = True"
| "parents_exist all_nodes (p # ps) =
     (if \<not> list_ex (\<lambda>n. node_id n = p) all_nodes then False
      else parents_exist all_nodes ps)"

fun verify_nodes :: "node list \<Rightarrow> node list \<Rightarrow> py_error + bool" where
  "verify_nodes all_nodes [] = Inr True"
| "verify_nodes all_nodes (n # ns) =
     (case compute_hash n of
        Inl e \<Rightarrow> Inl e
      | Inr expected_hash \<Rightarrow>
          if hash n \<noteq> expected_hash then Inr False
          else if \<not> parents_exist all_nodes (parent_ids n) then Inr False
          else verify_nodes all_nodes ns)"

definition verify_chain :: "chains \<Rightarrow> string \<Rightarrow> py_error + bool" where
  "verify_chain cs sid =
     (case cs sid of
        None \<Rightarrow> Inr False
      | Some ch \<Rightarrow>
          (case verify_nodes (nodes ch) (nodes ch) of
             Inl e \<Rightarrow> Inl e
           | Inr ok \<Rightarrow>
               if \<not> ok then Inr False
               else (case nodes ch of
                       [] \<Rightarrow> Inr True
                     | genesis # _ \<Rightarrow>
                         if hash genesis \<noteq> root_hash ch then Inr False else Inr True)))"

text \<open>
  \<^verbatim>\<open>import_chain\<close>. The argument is the outcome of \<^verbatim>\<open>ProvenanceChain(**chain_data)\<close>:
  \<open>None\<close> when the document does not validate (the constructor raises, and the
  \<^verbatim>\<open>except\<close> branch returns \<^verbatim>\<open>False\<close>), the chain otherwise. The chain is stored before
  it is verified. The entry is deleted where \<^verbatim>\<open>verify_chain\<close> returns false; where
  \<^verbatim>\<open>verify_chain\<close> raises, the same \<^verbatim>\<open>except\<close> branch returns \<^verbatim>\<open>False\<close> and deletes nothing.
\<close>

definition import_chain :: "chains \<Rightarrow> chain option \<Rightarrow> bool \<times> chains" where
  "import_chain cs parsed =
     (case parsed of
        None \<Rightarrow> (False, cs)
      | Some ch \<Rightarrow>
          let cs1 = cs(session_id ch \<mapsto> ch)
          in case verify_chain cs1 (session_id ch) of
               Inl e \<Rightarrow> (False, cs1)
             | Inr ok \<Rightarrow>
                 if ok then (True, cs1)
                 else (False, cs1(session_id ch := None)))"

text \<open>
  \<^verbatim>\<open>get_node_lineage\<close>. The dict comprehension keeps, for an id that occurs twice, the
  last node carrying it.
\<close>

definition node_map :: "node list \<Rightarrow> string \<rightharpoonup> node" where
  "node_map ns = map_of (rev (map (\<lambda>n. (node_id n, n)) ns))"

definition all_parent_ids :: "node list \<Rightarrow> string set" where
  "all_parent_ids ns = (\<Union>n \<in> set ns. set (parent_ids n))"

function lineage_loop ::
  "node list \<Rightarrow> string set \<Rightarrow> string list \<Rightarrow> node list \<Rightarrow> node list" where
  "lineage_loop ns visited [] lineage = lineage"
| "lineage_loop ns visited (current_id # queue) lineage =
     (if current_id \<in> visited then lineage_loop ns visited queue lineage
      else (case node_map ns current_id of
              None \<Rightarrow> lineage_loop ns (insert current_id visited) queue lineage
            | Some n \<Rightarrow>
                lineage_loop ns (insert current_id visited) (queue @ parent_ids n)
                  (lineage @ [n])))"
  by pat_completeness auto
termination
proof (relation "measures
    [\<lambda>(ns, visited, queue, lineage). card ((set queue \<union> all_parent_ids ns) - visited),
     \<lambda>(ns, visited, queue, lineage). length queue]", goal_cases)
  case 1
  then show ?case by simp
next
  case (2 ns visited current_id queue lineage)
  have "(set queue \<union> all_parent_ids ns) - visited
          \<subseteq> (set (current_id # queue) \<union> all_parent_ids ns) - visited"
    by auto
  moreover have "finite ((set (current_id # queue) \<union> all_parent_ids ns) - visited)"
    by (simp add: all_parent_ids_def)
  ultimately have "card ((set queue \<union> all_parent_ids ns) - visited)
          \<le> card ((set (current_id # queue) \<union> all_parent_ids ns) - visited)"
    by (rule card_mono[rotated])
  then show ?case by auto
next
  case (3 ns visited current_id queue lineage)
  have fin: "finite ((set (current_id # queue) \<union> all_parent_ids ns) - visited)"
    by (simp add: all_parent_ids_def)
  have "(set queue \<union> all_parent_ids ns) - insert current_id visited
          \<subset> (set (current_id # queue) \<union> all_parent_ids ns) - visited"
    using 3 by auto
  then have "card ((set queue \<union> all_parent_ids ns) - insert current_id visited)
          < card ((set (current_id # queue) \<union> all_parent_ids ns) - visited)"
    using fin by (rule psubset_card_mono[rotated])
  then show ?case by simp
next
  case (4 ns visited current_id queue lineage n)
  have fin: "finite ((set (current_id # queue) \<union> all_parent_ids ns) - visited)"
    by (simp add: all_parent_ids_def)
  have "n \<in> set ns"
    using 4(2) unfolding node_map_def by (auto dest!: map_of_SomeD)
  then have "set (parent_ids n) \<subseteq> all_parent_ids ns"
    by (auto simp: all_parent_ids_def)
  then have "(set (queue @ parent_ids n) \<union> all_parent_ids ns) - insert current_id visited
          \<subset> (set (current_id # queue) \<union> all_parent_ids ns) - visited"
    using 4 by auto
  then have "card ((set (queue @ parent_ids n) \<union> all_parent_ids ns) - insert current_id visited)
          < card ((set (current_id # queue) \<union> all_parent_ids ns) - visited)"
    using fin by (rule psubset_card_mono[rotated])
  then show ?case by simp
qed

definition get_node_lineage :: "chains \<Rightarrow> string \<Rightarrow> string \<Rightarrow> node list" where
  "get_node_lineage cs sid nid =
     (case cs sid of
        None \<Rightarrow> []
      | Some ch \<Rightarrow> rev (lineage_loop (nodes ch) {} [nid] []))"

text \<open>
  The canonical text of a node whose payload has the JSON text \<open>t\<close>, as the lemma
  \<open>content_json_text\<close> below establishes: the five entries in the order of their keys.
\<close>

definition node_text :: "string \<Rightarrow> string \<Rightarrow> string \<Rightarrow> string \<Rightarrow> string list \<Rightarrow> string" where
  "node_text i ty ts t ps =
     ''{'' @ json_str ''data'' @ '': '' @ t @ '', '' @
     json_str ''node_id'' @ '': '' @ json_str i @ '', '' @
     json_str ''node_type'' @ '': '' @ json_str ty @ '', '' @
     json_str ''parent_ids'' @ '': '' @
       ''['' @ join_with '', '' (map json_str (sorted_strs ps)) @ '']'' @ '', '' @
     json_str ''timestamp'' @ '': '' @ json_str ts @ ''}''"

text \<open>The digest of a node with that canonical text.\<close>

definition node_digest :: "string \<Rightarrow> string \<Rightarrow> string \<Rightarrow> string \<Rightarrow> string list \<Rightarrow> string" where
  "node_digest i ty ts t ps = sha256_hexdigest (node_text i ty ts t ps)"

text \<open>Two different texts with the same digest: a collision of SHA-256.\<close>

definition sha256_collides :: "string \<Rightarrow> string \<Rightarrow> bool" where
  "sha256_collides a b \<longleftrightarrow> a \<noteq> b \<and> sha256_hexdigest a = sha256_hexdigest b"

text \<open>
  A payload can be changed after insertion only from outside the engine, by assigning
  into the node that \<^verbatim>\<open>get_chain\<close> hands out: \<^verbatim>\<open>chain.nodes[i].data[k] = v\<close>. The
  assignment replaces the value of a key that is present and adds the key otherwise.
\<close>

fun dict_set :: "string \<Rightarrow> pyval \<Rightarrow> pydict \<Rightarrow> pydict" where
  "dict_set k v [] = [(k, v)]"
| "dict_set k v (kv # kvs) =
     (if fst kv = k then (k, v) # kvs else kv # dict_set k v kvs)"

definition tamper_field :: "chains \<Rightarrow> string \<Rightarrow> nat \<Rightarrow> string \<Rightarrow> pyval \<Rightarrow> chains" where
  "tamper_field cs sid i k v =
     (case cs sid of
        None \<Rightarrow> cs
      | Some ch \<Rightarrow>
          if i < length (nodes ch)
          then cs(sid \<mapsto> ch\<lparr>nodes := (nodes ch)
                 [i := (nodes ch ! i)\<lparr>data := dict_set k v (data (nodes ch ! i))\<rparr>]\<rparr>)
          else cs)"

text \<open>
  Engines used as concrete inputs: one fresh session, and the same with an intent. A
  document for the session \<open>s\<close> whose only node carries a Python set in its payload, a
  value that \<^verbatim>\<open>json.dumps\<close> refuses with a \<^verbatim>\<open>TypeError\<close>.
\<close>

definition engine_s :: chains where
  "engine_s = snd (create_session Map.empty (Some ''s'') ''u0'' ''t0'' ''t0'')"

definition engine_s_intent :: chains where
  "engine_s_intent =
     (case record_intent engine_s ''s'' [(''k'', PList [PInt 1, PInt 2])] None ''u1'' ''t1'' of
        Inl e \<Rightarrow> engine_s
      | Inr r \<Rightarrow> snd r)"

definition set_not_serializable :: py_error where
  "set_not_serializable = TypeError ''Object of type set is not JSON serializable''"

definition doc_with_set :: chain where
  "doc_with_set =
     \<lparr>session_id = ''s'',
      nodes = [\<lparr>node_id = ''s_genesis'', node_type = ''genesis'', timestamp = ''t9'',
                data = [(''session_id'', PStr ''s''), (''tags'', PRaises set_not_serializable)],
                parent_ids = [], hash = []\<rparr>],
      root_hash = []\<rparr>"

section \<open>The cognitive guardian\<close>

text \<open>
  \<^verbatim>\<open>governance/cognitive_guardian.py\<close>. Numbers are real numbers: the arithmetic of the
  guardian is exact here, where Python rounds to a double. The parameters of a decision
  are its numeric entries, the only ones the guardian reads. A history record keeps the
  decision type and the parameters; its timestamp and metadata are never read.
\<close>

datatype alert_level = INFO | WARNING | CRITICAL

type_synonym params = "(string \<times> real) list"

record decision =
  decision_type :: string
  parameters :: params

text \<open>
  \<^verbatim>\<open>GovernanceAlert\<close> as the guardian fills it: the metadata entries \<^verbatim>\<open>operator_id\<close>,
  \<^verbatim>\<open>decision_type\<close>, \<^verbatim>\<open>deviation\<close> and \<^verbatim>\<open>parameters\<close> are fields of the record. The alert
  id (read from the clock) and the message (a rendering of the deviation) are left out.
\<close>

record governance_alert =
  level :: alert_level
  source :: string
  requires_action :: bool
  meta_operator_id :: string
  meta_decision_type :: string
  meta_deviation :: real
  meta_parameters :: params

record operator_profile =
  profile_operator_id :: string
  selection_patterns :: "string \<rightharpoonup> real"
  risk_tolerance :: real
  baseline_deviation :: real

record guardian =
  operator_id :: string
  profile :: operator_profile
  history :: "decision list"
  alerts :: "governance_alert list"

text \<open>\<^verbatim>\<open>CognitiveGuardian.__init__\<close>, with the defaults of \<^verbatim>\<open>OperatorProfile\<close>.\<close>

definition new_guardian :: "string \<Rightarrow> guardian" where
  "new_guardian op =
     \<lparr>operator_id = op,
      profile = \<lparr>profile_operator_id = op, selection_patterns = Map.empty,
                 risk_tolerance = 0.5, baseline_deviation = 0\<rparr>,
      history = [], alerts = []\<rparr>"

text \<open>\<^verbatim>\<open>CognitiveGuardian._update_profile\<close>.\<close>

definition update_profile :: "operator_profile \<Rightarrow> string \<Rightarrow> params \<Rightarrow> operator_profile" where
  "update_profile p dt ps =
     (let p1 = (case selection_patterns p dt of
                  Some c \<Rightarrow> p\<lparr>selection_patterns := (selection_patterns p)(dt \<mapsto> c + 1)\<rparr>
                | None \<Rightarrow> p\<lparr>selection_patterns := (selection_patterns p)(dt \<mapsto> 1)\<rparr>)
      in if dt = ''budget_approval'' \<and> map_of ps ''amount'' \<noteq> None
         then (case map_of ps ''amount'' of
                 None \<Rightarrow> p1
               | Some amount \<Rightarrow>
                   let current_tolerance = risk_tolerance p1;
                       alpha = 0.1;
                       normalized_amount = min (amount / 1000) 1
                   in p1\<lparr>risk_tolerance :=
                            (1 - alpha) * current_tolerance + alpha * normalized_amount\<rparr>)
         else p1)"

text \<open>\<^verbatim>\<open>CognitiveGuardian.record_decision\<close>.\<close>

definition record_decision :: "guardian \<Rightarrow> string \<Rightarrow> params \<Rightarrow> guardian" where
  "record_decision g dt ps =
     g\<lparr>history := history g @ [\<lparr>decision_type = dt, parameters = ps\<rparr>],
       profile := update_profile (profile g) dt ps\<rparr>"










section \<open>The protocol handler\<close>

text \<open>
  \<^verbatim>\<open>core/protocol.py\<close>, with \<^verbatim>\<open>MCPServerSpec\<close>, \<^verbatim>\<open>MCPRequest\<close> and \<^verbatim>\<open>MCPResponse\<close> of
  \<^verbatim>\<open>core/types.py\<close>. A server specification keeps the fields the core reads. The
  timestamps that the request and the response take from the clock are left out.
\<close>

record server_spec =
  name :: string
  endpoint :: string
  cost_per_call :: real

record mcp_request =
  req_server_name :: string
  req_tool_name :: string
  req_parameters :: pydict
  request_id :: string
  req_metadata :: pydict

record mcp_response =
  resp_request_id :: string
  resp_server_name :: string
  resp_tool_name :: string
  result :: pyval
  error :: "string option"
  cost :: real
  resp_metadata :: pydict

text \<open>
  The network is a function of the attempt number, the URL and the request. It stands
  for \<^verbatim>\<open>self._client.post\<close>, \<^verbatim>\<open>raise_for_status\<close>, \<^verbatim>\<open>response.json()\<close> and the reading of
  the body: \<open>Inl msg\<close> is an exception raised by any of them, \<open>msg\<close> being its \<^verbatim>\<open>str\<close>, and
  \<open>Inr\<close> carries the entries \<^verbatim>\<open>result\<close>, \<^verbatim>\<open>error\<close>, \<^verbatim>\<open>cost\<close> (\<open>0.0\<close> when absent) and
  \<^verbatim>\<open>metadata\<close> (empty when absent) of the body.
\<close>

record wire_reply =
  reply_result :: pyval
  reply_error :: "string option"
  reply_cost :: real
  reply_metadata :: pydict

type_synonym transport = "nat \<Rightarrow> string \<Rightarrow> mcp_request \<Rightarrow> string + wire_reply"

text \<open>\<^verbatim>\<open>ProtocolHandler._execute_request\<close>.\<close>

definition execute_request ::
  "transport \<Rightarrow> nat \<Rightarrow> server_spec \<Rightarrow> mcp_request \<Rightarrow> string + mcp_response" where
  "execute_request post attempt spec request =
     (let url = endpoint spec @ ''/tools/'' @ req_tool_name request
      in case post attempt url request of
           Inl e \<Rightarrow> Inl e
         | Inr d \<Rightarrow>
             Inr \<lparr>resp_request_id = request_id request, resp_server_name = name spec,
                  resp_tool_name = req_tool_name request, result = reply_result d,
                  error = reply_error d, cost = reply_cost d,
                  resp_metadata = reply_metadata d\<rparr>)"

text \<open>
  What a call of \<^verbatim>\<open>send_request\<close> did besides returning: how many times it posted, and
  the durations it slept, in order.
\<close>

record send_trace =
  attempts :: nat
  sleeps :: "nat list"

text \<open>
  The loop \<^verbatim>\<open>for attempt in range(self.max_retries)\<close> of \<^verbatim>\<open>send_request\<close>, over the
  remaining attempt numbers; after the loop, the response "Max retries exceeded".
\<close>

fun send_attempts ::
  "transport \<Rightarrow> int \<Rightarrow> server_spec \<Rightarrow> mcp_request \<Rightarrow> nat list \<Rightarrow> send_trace
     \<Rightarrow> mcp_response \<times> send_trace" where
  "send_attempts post max_retries spec request [] tr =
     (\<lparr>resp_request_id = request_id request, resp_server_name = name spec,
       resp_tool_name = req_tool_name request, result = PNone,
       error = Some ''Max retries exceeded'', cost = 0, resp_metadata = []\<rparr>, tr)"
| "send_attempts post max_retries spec request (attempt # rest) tr =
     (case execute_request post attempt spec request of
        Inr response \<Rightarrow> (response, tr\<lparr>attempts := attempts tr + 1\<rparr>)
      | Inl e \<Rightarrow>
          if int attempt < max_retries - 1
          then send_attempts post max_retries spec request rest
                 (tr\<lparr>attempts := attempts tr + 1, sleeps := sleeps tr @ [2 ^ attempt]\<rparr>)
          else (\<lparr>resp_request_id = request_id request, resp_server_name = name spec,
                 resp_tool_name = req_tool_name request, result = PNone,
                 error = Some e, cost = 0, resp_metadata = []\<rparr>,
                tr\<lparr>attempts := attempts tr + 1\<rparr>))"

text \<open>
  \<^verbatim>\<open>ProtocolHandler.send_request\<close>: the request it builds, where \<open>rid\<close> is the
  \<^verbatim>\<open>str(uuid4())\<close> it draws and \<^verbatim>\<open>metadata or {}\<close> turns a missing metadata into the
  empty dict; then the loop.
\<close>

definition make_request ::
  "server_spec \<Rightarrow> string \<Rightarrow> pydict \<Rightarrow> pydict option \<Rightarrow> string \<Rightarrow> mcp_request" where
  "make_request spec tool params metadata rid =
     \<lparr>req_server_name = name spec, req_tool_name = tool, req_parameters = params,
      request_id = rid,
      req_metadata = (case metadata of None \<Rightarrow> [] | Some m \<Rightarrow> m)\<rparr>"

definition send_request ::
  "transport \<Rightarrow> int \<Rightarrow> server_spec \<Rightarrow> string \<Rightarrow> pydict \<Rightarrow> pydict option \<Rightarrow> string
     \<Rightarrow> mcp_response \<times> send_trace" where
  "send_request post max_retries spec tool params metadata rid =
     (let request = make_request spec tool params metadata rid
      in send_attempts post max_retries spec request [0..<nat max_retries]
           \<lparr>attempts = 0, sleeps = []\<rparr>)"

text \<open>The response that the \<^verbatim>\<open>except\<close> branch builds from the text of an exception.\<close>

definition error_response :: "server_spec \<Rightarrow> mcp_request \<Rightarrow> string \<Rightarrow> mcp_response" where
  "error_response spec request e =
     \<lparr>resp_request_id = request_id request, resp_server_name = name spec,
      resp_tool_name = req_tool_name request, result = PNone,
      error = Some e, cost = 0, resp_metadata = []\<rparr>"

section \<open>Plans and their validation\<close>

text \<open>
  \<^verbatim>\<open>TaskStatus\<close>, \<^verbatim>\<open>ExecutionMode\<close>, \<^verbatim>\<open>UserIntent\<close>, \<^verbatim>\<open>OrchestrationStep\<close> and
  \<^verbatim>\<open>OrchestrationPlan\<close> of \<^verbatim>\<open>core/types.py\<close>. Costs and times are real numbers.
\<close>

datatype task_status = PENDING | IN_PROGRESS | COMPLETED | FAILED | CANCELLED

datatype execution_mode = NARROW | FREEFIELD

record user_intent =
  raw_input :: string
  primary_objective :: string
  domain :: string
  constraints :: "string list"
  success_criteria :: "string list"
  budget :: "real option"
  mode :: execution_mode

record orchestration_step =
  step_id :: string
  description :: string
  server_name :: string
  tool_name :: string
  step_parameters :: pydict
  dependencies :: "string list"
  status :: task_status
  parallel_group :: "int option"

record orchestration_plan =
  intent :: user_intent
  steps :: "orchestration_step list"
  estimated_cost :: real
  estimated_time :: real
  confidence :: real
  templates_used :: "string list"

text \<open>The registry is its \<^verbatim>\<open>_servers\<close> dict; \<^verbatim>\<open>get_server\<close> is the lookup.\<close>

type_synonym registry = "string \<rightharpoonup> server_spec"

text \<open>
  The three messages of \<^verbatim>\<open>Orchestrator.validate_plan\<close>, each held by its kind and the
  values it prints: estimated cost and budget; the server name; the dependency and the
  step that names it.
\<close>

datatype validation_error =
    BudgetExceeded real real
  | UnknownCapability string
  | DanglingDependency string string

fun first_unknown_server :: "registry \<Rightarrow> orchestration_step list \<Rightarrow> string option" where
  "first_unknown_server reg [] = None"
| "first_unknown_server reg (s # ss) =
     (if reg (server_name s) = None then Some (server_name s)
      else first_unknown_server reg ss)"

fun first_unknown_dep :: "string set \<Rightarrow> string list \<Rightarrow> string option" where
  "first_unknown_dep step_ids [] = None"
| "first_unknown_dep step_ids (d # ds) =
     (if d \<notin> step_ids then Some d else first_unknown_dep step_ids ds)"

fun first_dangling ::
  "string set \<Rightarrow> orchestration_step list \<Rightarrow> (string \<times> string) option" where
  "first_dangling step_ids [] = None"
| "first_dangling step_ids (s # ss) =
     (case first_unknown_dep step_ids (dependencies s) of
        Some d \<Rightarrow> Some (d, step_id s)
      | None \<Rightarrow> first_dangling step_ids ss)"

text \<open>
  \<^verbatim>\<open>Orchestrator.validate_plan\<close>. The test \<^verbatim>\<open>if plan.intent.budget\<close> is false for a missing
  budget and for the budget \<open>0.0\<close>.
\<close>

definition validate_plan :: "registry \<Rightarrow> orchestration_plan \<Rightarrow> bool \<times> validation_error option" where
  "validate_plan reg plan =
     (case (case budget (intent plan) of
              None \<Rightarrow> None
            | Some b \<Rightarrow> if b \<noteq> 0 \<and> estimated_cost plan > b then Some b else None) of
        Some b \<Rightarrow> (False, Some (BudgetExceeded (estimated_cost plan) b))
      | None \<Rightarrow>
          (case first_unknown_server reg (steps plan) of
             Some s \<Rightarrow> (False, Some (UnknownCapability s))
           | None \<Rightarrow>
               (case first_dangling (set (map step_id (steps plan))) (steps plan) of
                  Some (d, sid) \<Rightarrow> (False, Some (DanglingDependency d sid))
                | None \<Rightarrow> (True, None))))"

section \<open>The kernel\<close>

text \<open>
  \<^verbatim>\<open>core/kernel.py\<close>. What the kernel is configured with and what it reads from its
  environment: the registry, the retry bound of its protocol handler, the network, the
  rendering of a float (\<^verbatim>\<open>repr\<close>), and the \<open>k\<close>-th values of \<^verbatim>\<open>uuid4\<close> and of the clock.
\<close>

record kernel_config =
  registry :: registry
  protocol_max_retries :: int
  net :: transport
  float_repr :: "real \<Rightarrow> string"
  uuid4 :: "nat \<Rightarrow> string"
  utcnow :: "nat \<Rightarrow> string"

text \<open>
  The state a run changes: the provenance engine, the number of environment reads made
  so far, and the trace of every \<^verbatim>\<open>send_request\<close> call made so far, in order.
\<close>

record kernel_state =
  provenance :: chains
  reads :: nat
  traffic :: "send_trace list"

text \<open>\<^verbatim>\<open>model_dump()\<close> of an intent, of a step and of a plan.\<close>

definition mode_value :: "execution_mode \<Rightarrow> string" where
  "mode_value m = (case m of NARROW \<Rightarrow> ''narrow'' | FREEFIELD \<Rightarrow> ''freefield'')"

definition status_value :: "task_status \<Rightarrow> string" where
  "status_value s =
     (case s of PENDING \<Rightarrow> ''pending'' | IN_PROGRESS \<Rightarrow> ''in_progress''
      | COMPLETED \<Rightarrow> ''completed'' | FAILED \<Rightarrow> ''failed'' | CANCELLED \<Rightarrow> ''cancelled'')"

definition intent_dump :: "(real \<Rightarrow> string) \<Rightarrow> user_intent \<Rightarrow> pydict" where
  "intent_dump fr i =
     [(''raw_input'', PStr (raw_input i)),
      (''primary_objective'', PStr (primary_objective i)),
      (''domain'', PStr (domain i)),
      (''constraints'', PList (map PStr (constraints i))),
      (''success_criteria'', PList (map PStr (success_criteria i))),
      (''budget'', (case budget i of None \<Rightarrow> PNone | Some b \<Rightarrow> PFloat (FloatRepr (fr b)))),
      (''mode'', PStr (mode_value (mode i)))]"

definition step_dump :: "orchestration_step \<Rightarrow> pydict" where
  "step_dump s =
     [(''step_id'', PStr (step_id s)),
      (''description'', PStr (description s)),
      (''server_name'', PStr (server_name s)),
      (''tool_name'', PStr (tool_name s)),
      (''parameters'', PDict (step_parameters s)),
      (''dependencies'', PList (map PStr (dependencies s))),
      (''status'', PStr (status_value (status s))),
      (''parallel_group'', (case parallel_group s of None \<Rightarrow> PNone | Some g \<Rightarrow> PInt g))]"

definition plan_dump :: "(real \<Rightarrow> string) \<Rightarrow> orchestration_plan \<Rightarrow> pydict" where
  "plan_dump fr p =
     [(''intent'', PDict (intent_dump fr (intent p))),
      (''steps'', PList (map (\<lambda>s. PDict (step_dump s)) (steps p))),
      (''estimated_cost'', PFloat (FloatRepr (fr (estimated_cost p)))),
      (''estimated_time'', PFloat (FloatRepr (fr (estimated_time p)))),
      (''confidence'', PFloat (FloatRepr (fr (confidence p)))),
      (''templates_used'', PList (map PStr (templates_used p)))]"

text \<open>
  \<^verbatim>\<open>AetherMCP._execute_step\<close>, in the two stretches that the event loop runs without
  interruption when \<^verbatim>\<open>send_request\<close> posts at least once. The first reaches the \<^verbatim>\<open>await\<close>
  of the first post: it looks the server up, records the step node, and, inside
  \<^verbatim>\<open>send_request\<close>, draws the request id. The second runs when the network has answered:
  the attempts of \<^verbatim>\<open>send_request\<close>, the result node, the return. Either ends with \<open>Inl\<close>,
  the text of the exception raised: the \<^verbatim>\<open>ValueError\<close> for the unknown server, or what
  \<^verbatim>\<open>record_step\<close> and \<^verbatim>\<open>record_result\<close> raise.
\<close>

definition step_begin ::
  "kernel_config \<Rightarrow> kernel_state \<Rightarrow> string \<Rightarrow> orchestration_step \<Rightarrow> string
     \<Rightarrow> (string + server_spec \<times> string \<times> string) \<times> kernel_state" where
  "step_begin cfg st sid step parent_node_id =
     (case registry cfg (server_name step) of
        None \<Rightarrow> (Inl (''Server '' @ [CHR 0x27] @ server_name step @ [CHR 0x27] @ '' not found''), st)
      | Some server \<Rightarrow>
          (case record_step (provenance st) sid
                  [(''step_id'', PStr (step_id step)),
                   (''server'', PStr (server_name step)),
                   (''tool'', PStr (tool_name step)),
                   (''parameters'', PDict (step_parameters step))]
                  parent_node_id (uuid4 cfg (reads st)) (utcnow cfg (reads st)) of
             Inl e \<Rightarrow> (Inl (error_text e), st\<lparr>reads := reads st + 1\<rparr>)
           | Inr (step_node_id, cs) \<Rightarrow>
               (Inr (server, step_node_id, uuid4 cfg (reads st + 1)),
                st\<lparr>provenance := cs, reads := reads st + 2\<rparr>)))"

definition step_end ::
  "kernel_config \<Rightarrow> kernel_state \<Rightarrow> string \<Rightarrow> orchestration_step \<Rightarrow> server_spec \<Rightarrow> string
     \<Rightarrow> string \<Rightarrow> (string + mcp_response \<times> real) \<times> kernel_state" where
  "step_end cfg st sid step server step_node_id rid =
     (let (response, tr) = send_request (net cfg) (protocol_max_retries cfg) server (tool_name step)
                             (step_parameters step) None rid;
          st1 = st\<lparr>traffic := traffic st @ [tr]\<rparr>
      in case record_result (provenance st1) sid
                [(''step_id'', PStr (step_id step)),
                 (''result'', result response),
                 (''cost'', PFloat (FloatRepr (float_repr cfg (cost response)))),
                 (''error'', (case error response of None \<Rightarrow> PNone | Some e \<Rightarrow> PStr e))]
                step_node_id (uuid4 cfg (reads st1)) (utcnow cfg (reads st1)) of
           Inl e \<Rightarrow> (Inl (error_text e), st1\<lparr>reads := reads st1 + 1\<rparr>)
         | Inr (nid, cs) \<Rightarrow>
             (Inr (response, cost response), st1\<lparr>provenance := cs, reads := reads st1 + 1\<rparr>))"

text \<open>
  \<^verbatim>\<open>asyncio.gather(*tasks, return_exceptions=True)\<close> over one group. Every post suspends
  its task. So every task runs its first stretch, in list order, before any response
  arrives; the second stretches run as the responses arrive, here in list order. A task
  that raised in its first stretch has no second one. The outcome of each task is kept,
  exception or value.
\<close>

fun begin_all ::
  "kernel_config \<Rightarrow> kernel_state \<Rightarrow> string \<Rightarrow> string \<Rightarrow> orchestration_step list
     \<Rightarrow> (string + server_spec \<times> string \<times> string) list \<times> kernel_state" where
  "begin_all cfg st sid parent [] = ([], st)"
| "begin_all cfg st sid parent (step # rest) =
     (let (r, st1) = step_begin cfg st sid step parent;
          (rs, st2) = begin_all cfg st1 sid parent rest
      in (r # rs, st2))"

fun end_all ::
  "kernel_config \<Rightarrow> kernel_state \<Rightarrow> string
     \<Rightarrow> (orchestration_step \<times> (string + server_spec \<times> string \<times> string)) list
     \<Rightarrow> (string + mcp_response \<times> real) list \<times> kernel_state" where
  "end_all cfg st sid [] = ([], st)"
| "end_all cfg st sid ((step, started) # rest) =
     (case started of
        Inl e \<Rightarrow> (let (rs, st1) = end_all cfg st sid rest in (Inl e # rs, st1))
      | Inr (server, step_node_id, rid) \<Rightarrow>
          (let (r, st1) = step_end cfg st sid step server step_node_id rid;
               (rs, st2) = end_all cfg st1 sid rest
           in (r # rs, st2)))"

text \<open>
  With a retry bound below one \<^verbatim>\<open>send_request\<close> posts nothing and never suspends: each
  task then runs from its first line to its return before the next task starts.
\<close>

fun run_all ::
  "kernel_config \<Rightarrow> kernel_state \<Rightarrow> string \<Rightarrow> string \<Rightarrow> orchestration_step list
     \<Rightarrow> (string + mcp_response \<times> real) list \<times> kernel_state" where
  "run_all cfg st sid parent [] = ([], st)"
| "run_all cfg st sid parent (step # rest) =
     (let (started, st1) = step_begin cfg st sid step parent
      in case started of
           Inl e \<Rightarrow> (let (rs, st2) = run_all cfg st1 sid parent rest in (Inl e # rs, st2))
         | Inr (server, step_node_id, rid) \<Rightarrow>
             (let (r, st2) = step_end cfg st1 sid step server step_node_id rid;
                  (rs, st3) = run_all cfg st2 sid parent rest
              in (r # rs, st3)))"

definition gather_group ::
  "kernel_config \<Rightarrow> kernel_state \<Rightarrow> string \<Rightarrow> string \<Rightarrow> orchestration_step list
     \<Rightarrow> (string + mcp_response \<times> real) list \<times> kernel_state" where
  "gather_group cfg st sid parent grp =
     (if protocol_max_retries cfg \<le> 0 then run_all cfg st sid parent grp
      else (let (started, st1) = begin_all cfg st sid parent grp
            in end_all cfg st1 sid (zip grp started)))"

text \<open>
  The loop "Process results" of \<^verbatim>\<open>_execute_plan\<close>: the deliverables, the total cost and
  the steps with their status assigned.
\<close>

fun process_results ::
  "(orchestration_step \<times> (string + mcp_response \<times> real)) list \<Rightarrow> pydict \<Rightarrow> real
     \<Rightarrow> pydict \<times> real \<times> orchestration_step list" where
  "process_results [] deliverables total_cost = (deliverables, total_cost, [])"
| "process_results ((step, res) # rest) deliverables total_cost =
     (case res of
        Inl e \<Rightarrow>
          (let (d, c, ss) = process_results rest deliverables total_cost
           in (d, c, step\<lparr>status := FAILED\<rparr> # ss))
      | Inr (response, step_cost) \<Rightarrow>
          (let (d, c, ss) = process_results rest
                              (dict_set (step_id step) (result response) deliverables)
                              (total_cost + step_cost)
           in (d, c, step\<lparr>status := COMPLETED\<rparr> # ss)))"

text \<open>The partition of the steps into groups, at the head of \<^verbatim>\<open>_execute_plan\<close>.\<close>

fun group_steps ::
  "orchestration_step list \<Rightarrow> orchestration_step list list \<Rightarrow> orchestration_step list
     \<Rightarrow> int option \<Rightarrow> orchestration_step list list" where
  "group_steps [] sequential_groups current_group current_parallel_id =
     (if current_group \<noteq> [] then sequential_groups @ [current_group] else sequential_groups)"
| "group_steps (step # rest) sequential_groups current_group current_parallel_id =
     (if parallel_group step \<noteq> current_parallel_id
      then group_steps rest
             (if current_group \<noteq> [] then sequential_groups @ [current_group]
              else sequential_groups)
             [step] (parallel_group step)
      else group_steps rest sequential_groups (current_group @ [step]) current_parallel_id)"

text \<open>The loop over the groups, and \<^verbatim>\<open>_execute_plan\<close>.\<close>

fun execute_groups ::
  "kernel_config \<Rightarrow> kernel_state \<Rightarrow> string \<Rightarrow> string \<Rightarrow> orchestration_step list list
     \<Rightarrow> pydict \<Rightarrow> real \<Rightarrow> (pydict \<times> real \<times> orchestration_step list) \<times> kernel_state" where
  "execute_groups cfg st sid parent [] deliverables total_cost =
     ((deliverables, total_cost, []), st)"
| "execute_groups cfg st sid parent (grp # rest) deliverables total_cost =
     (let (results, st1) = gather_group cfg st sid parent grp;
          (d1, c1, ss1) = process_results (zip grp results) deliverables total_cost;
          ((d2, c2, ss2), st2) = execute_groups cfg st1 sid parent rest d1 c1
      in ((d2, c2, ss1 @ ss2), st2))"

definition execute_plan ::
  "kernel_config \<Rightarrow> kernel_state \<Rightarrow> string \<Rightarrow> orchestration_plan \<Rightarrow> string
     \<Rightarrow> (pydict \<times> real \<times> orchestration_step list) \<times> kernel_state" where
  "execute_plan cfg st sid plan plan_node_id =
     execute_groups cfg st sid plan_node_id (group_steps (steps plan) [] [] None) [] 0"

text \<open>
  \<^verbatim>\<open>ExecutionResult\<close>, with the fields read below: the session, the deliverables, the
  chain, the status and the error. The error of a run is the message of the failed
  validation or the text of the exception caught at the top.
\<close>

datatype run_error = PlanInvalid validation_error | Raised string

record execution_result =
  res_session_id :: string
  res_deliverables :: pydict
  res_provenance :: "chain option"
  res_status :: task_status
  res_error :: "run_error option"

text \<open>
  \<^verbatim>\<open>AetherMCP.execute_async\<close>. The parsing of the text and the generation of the plan are
  the orchestrator's keyword heuristics; they are arguments here, \<open>parsed\<close> the outcome of
  \<^verbatim>\<open>parse_intent\<close> and \<open>generate_plan\<close> the function from the intent to the plan, each with
  \<open>Inl\<close> for an exception.
\<close>

definition execute_async ::
  "kernel_config \<Rightarrow> kernel_state \<Rightarrow> (string + user_intent)
     \<Rightarrow> (user_intent \<Rightarrow> string + orchestration_plan)
     \<Rightarrow> execution_result \<times> kernel_state" where
  "execute_async cfg st parsed generate_plan =
     (let (sid, cs0) = create_session (provenance st) None (uuid4 cfg (reads st))
                         (utcnow cfg (reads st)) (utcnow cfg (reads st));
          st0 = st\<lparr>provenance := cs0, reads := reads st + 1\<rparr>;
          raised = (\<lambda>e s. (\<lparr>res_session_id = sid, res_deliverables = [],
                              res_provenance = provenance s sid, res_status = FAILED,
                              res_error = Some (Raised e)\<rparr>, s))
      in case parsed of
           Inl e \<Rightarrow> raised e st0
         | Inr parsed_intent \<Rightarrow>
             (case record_intent (provenance st0) sid (intent_dump (float_repr cfg) parsed_intent)
                     None (uuid4 cfg (reads st0)) (utcnow cfg (reads st0)) of
                Inl e \<Rightarrow> raised (error_text e) (st0\<lparr>reads := reads st0 + 1\<rparr>)
              | Inr (intent_node_id, cs1) \<Rightarrow>
                  (let st1 = st0\<lparr>provenance := cs1, reads := reads st0 + 1\<rparr>
                   in case generate_plan parsed_intent of
                        Inl e \<Rightarrow> raised e st1
                      | Inr plan \<Rightarrow>
                          (let (is_valid, err) = validate_plan (registry cfg) plan
                           in if \<not> is_valid
                              then (\<lparr>res_session_id = sid, res_deliverables = [],
                                     res_provenance = provenance st1 sid, res_status = FAILED,
                                     res_error = map_option PlanInvalid err\<rparr>, st1)
                              else (case record_plan (provenance st1) sid
                                           (plan_dump (float_repr cfg) plan) intent_node_id
                                           (uuid4 cfg (reads st1)) (utcnow cfg (reads st1)) of
                                      Inl e \<Rightarrow>
                                        raised (error_text e) (st1\<lparr>reads := reads st1 + 1\<rparr>)
                                    | Inr (plan_node_id, cs2) \<Rightarrow>
                                        (let st2 = st1\<lparr>provenance := cs2, reads := reads st1 + 1\<rparr>;
                                             ((deliverables, total_cost, ss), st3) =
                                               execute_plan cfg st2 sid plan plan_node_id
                                         in (\<lparr>res_session_id = sid,
                                              res_deliverables = deliverables,
                                              res_provenance = provenance st3 sid,
                                              res_status = COMPLETED,
                                              res_error = None\<rparr>, st3)))))))"

text \<open>
  A kernel used as concrete input: one registered server \<open>srv\<close>, one attempt per request,
  a network on which every post fails with "boom", and fresh ids and times numbered by
  the read. The only float it renders is \<open>0.0\<close>. The intent has no budget; the first plan
  has one step on \<open>srv\<close>, the second one step on the unregistered server \<open>ghost\<close>.
\<close>

definition cfg_boom :: kernel_config where
  "cfg_boom =
     \<lparr>registry = [''srv'' \<mapsto> \<lparr>name = ''srv'', endpoint = ''http://srv'', cost_per_call = 0\<rparr>],
      protocol_max_retries = 1,
      net = (\<lambda>k url rq. Inl ''boom''),
      float_repr = (\<lambda>r. ''0.0''),
      uuid4 = (\<lambda>k. ''u'' @ [hex_digit k]),
      utcnow = (\<lambda>k. ''t'' @ [hex_digit k])\<rparr>"

definition st_empty :: kernel_state where
  "st_empty = \<lparr>provenance = Map.empty, reads = 0, traffic = []\<rparr>"

definition intent_demo :: user_intent where
  "intent_demo =
     \<lparr>raw_input = ''design it'', primary_objective = ''design it'', domain = ''ui'',
      constraints = [], success_criteria = [], budget = None, mode = NARROW\<rparr>"

definition step_on :: "string \<Rightarrow> orchestration_step" where
  "step_on srv =
     \<lparr>step_id = ''design_1'', description = ''Generate initial design'', server_name = srv,
      tool_name = ''generate'', step_parameters = [(''prompt'', PStr ''design it'')],
      dependencies = [], status = PENDING, parallel_group = None\<rparr>"

definition plan_on :: "string \<Rightarrow> orchestration_plan" where
  "plan_on srv =
     \<lparr>intent = intent_demo, steps = [step_on srv], estimated_cost = 0, estimated_time = 30,
      confidence = 0.8, templates_used = []\<rparr>"

text \<open>
  A kernel state in which the session \<open>s\<close> is tracked, and a plan of one group with two
  steps, the first on the unregistered server \<open>ghost\<close>, the second on \<open>srv\<close>. The same
  kernel on a network that answers every post with the text \<open>done\<close> and an error, and a
  plan of one group with a third step on \<open>srv\<close> whose parameters hold a Python set.
\<close>

definition st_s :: kernel_state where
  "st_s = \<lparr>provenance = engine_s, reads = 1, traffic = []\<rparr>"

definition plan_two :: orchestration_plan where
  "plan_two =
     \<lparr>intent = intent_demo,
      steps = [step_on ''ghost'', (step_on ''srv'')\<lparr>step_id := ''design_2''\<rparr>],
      estimated_cost = 0, estimated_time = 60, confidence = 0.8, templates_used = []\<rparr>"

definition reply_done :: wire_reply where
  "reply_done =
     \<lparr>reply_result = PStr ''done'', reply_error = Some ''partial'', reply_cost = 0,
      reply_metadata = []\<rparr>"

definition cfg_reply :: kernel_config where
  "cfg_reply = cfg_boom\<lparr>net := (\<lambda>k url rq. Inr reply_done)\<rparr>"

definition plan_three :: orchestration_plan where
  "plan_three =
     \<lparr>intent = intent_demo,
      steps = [step_on ''ghost'', (step_on ''srv'')\<lparr>step_id := ''design_2''\<rparr>,
               (step_on ''srv'')\<lparr>step_id := ''design_3'',
                  step_parameters := [(''tags'', PRaises set_not_serializable)]\<rparr>],
      estimated_cost = 0, estimated_time = 60, confidence = 0.8, templates_used = []\<rparr>"

text \<open>
  The status that a step has after its group ran in a tracked session, on a network
  whose replies are JSON, as the theorems below establish: failed when its server is not
  registered or \<^verbatim>\<open>json.dumps\<close> raises on its parameters, completed otherwise.
\<close>

definition expected_status :: "kernel_config \<Rightarrow> orchestration_step \<Rightarrow> task_status" where
  "expected_status cfg s =
     (if registry cfg (server_name s) = None \<or> isl (json_dumps (PDict (step_parameters s)))
      then FAILED else COMPLETED)"

section \<open>Facts about the JSON text, the digest and the verification loops\<close>

lemma first_error_isl: "isl (first_error rs) \<longleftrightarrow> (\<exists>r \<in> set rs. isl r)"
  by (induction rs) (auto split: sum.splits)

lemma first_error_all_Inr: "first_error (map Inr xs) = Inr xs"
  by (induction xs) simp_all

lemma set_insert_by_key: "set (insert_by_key x ys) = insert x (set ys)"
  by (induction ys) auto

lemma set_foldl_insert_by_key:
  "set (foldl (\<lambda>acc kv. insert_by_key kv acc) acc xs) = set acc \<union> set xs"
  by (induction xs arbitrary: acc) (auto simp: set_insert_by_key)

lemma set_sort_by_key: "set (sort_by_key xs) = set xs"
  by (simp add: sort_by_key_def set_foldl_insert_by_key)

lemma isl_case_pass: "isl (case r of Inl e \<Rightarrow> Inl e | Inr t \<Rightarrow> Inr (f t)) = isl r"
  by (cases r) simp_all

lemma json_dumps_list_isl:
  "isl (json_dumps (PList xs)) \<longleftrightarrow> (\<exists>v \<in> set xs. isl (json_dumps v))"
proof -
  have "isl (json_dumps (PList xs)) = isl (first_error (map json_dumps xs))"
    by (simp split: sum.splits)
  then show ?thesis by (simp add: first_error_isl)
qed

lemma json_dumps_dict_isl:
  "isl (json_dumps (PDict kvs)) \<longleftrightarrow> (\<exists>kv \<in> set kvs. isl (json_dumps (snd kv)))"
proof -
  have "isl (json_dumps (PDict kvs)) =
        isl (first_error
             (map (\<lambda>kr. case snd kr of
                            Inl e \<Rightarrow> Inl e
                          | Inr t \<Rightarrow> Inr (json_str (fst kr) @ '': '' @ t))
                (sort_by_key (map (\<lambda>kv. (fst kv, json_dumps (snd kv))) kvs))))"
    by (simp split: sum.splits)
  also have "\<dots> \<longleftrightarrow>
        (\<exists>kr \<in> set (sort_by_key (map (\<lambda>kv. (fst kv, json_dumps (snd kv))) kvs)). isl (snd kr))"
    by (simp add: first_error_isl isl_case_pass)
  also have "\<dots> \<longleftrightarrow> (\<exists>kv \<in> set kvs. isl (json_dumps (snd kv)))"
    by (auto simp: set_sort_by_key)
  finally show ?thesis .
qed

lemma json_dumps_str_list:
  "json_dumps (PList (map PStr xs)) = Inr (''['' @ join_with '', '' (map json_str xs) @ '']'')"
proof -
  have "map json_dumps (map PStr xs) = map Inr (map json_str xs)"
    by simp
  then show ?thesis
    by (simp add: first_error_all_Inr del: map_map)
qed

lemma content_json_text:
  "content_json n =
     (case json_dumps (PDict (data n)) of
        Inl e \<Rightarrow> Inl e
      | Inr t \<Rightarrow> Inr (node_text (node_id n) (node_type n) (timestamp n) t (parent_ids n)))"
proof -
  have ps: "json_dumps (PList (map PStr (sorted_strs (parent_ids n))))
              = Inr (''['' @ join_with '', '' (map json_str (sorted_strs (parent_ids n))) @ '']'')"
    by (rule json_dumps_str_list)
  show ?thesis
    unfolding content_json_def Let_def
    by (subst json_dumps.simps(8))
       (simp add: ps sort_by_key_def node_text_def split: sum.splits
          del: json_dumps.simps(6) json_dumps.simps(8))
qed

lemma compute_hash_text:
  "compute_hash n =
     (case json_dumps (PDict (data n)) of
        Inl e \<Rightarrow> Inl e
      | Inr t \<Rightarrow> Inr (node_digest (node_id n) (node_type n) (timestamp n) t (parent_ids n)))"
  by (simp add: compute_hash_def content_json_text node_digest_def split: sum.splits
        del: json_dumps.simps)

lemma compute_hash_fields:
  "compute_hash \<lparr>node_id = i, node_type = ty, timestamp = ts, data = d, parent_ids = ps, hash = h\<rparr>
     = (case json_dumps (PDict d) of
          Inl e \<Rightarrow> Inl e
        | Inr t \<Rightarrow> Inr (node_digest i ty ts t ps))"
  by (simp add: compute_hash_text split: sum.splits del: json_dumps.simps)

lemma compute_hash_isl: "isl (compute_hash n) = isl (json_dumps (PDict (data n)))"
  by (simp add: compute_hash_text split: sum.splits del: json_dumps.simps)

lemma compute_hash_hash_update: "compute_hash (n\<lparr>hash := h\<rparr>) = compute_hash n"
  by (simp add: compute_hash_text split: sum.splits del: json_dumps.simps)

lemma json_dumps_genesis_data:
  "json_dumps (PDict [(''session_id'', PStr sid), (''created_at'', PStr created)])
     = Inr (''{'' @ json_str ''created_at'' @ '': '' @ json_str created @ '', '' @
            json_str ''session_id'' @ '': '' @ json_str sid @ ''}'')"
  by (simp add: sort_by_key_def)

lemma compute_hash_genesis:
  "\<exists>h. compute_hash \<lparr>node_id = i, node_type = ty, timestamp = ts,
           data = [(''session_id'', PStr sid), (''created_at'', PStr created)],
           parent_ids = ps, hash = h0\<rparr> = Inr h"
  by (simp add: compute_hash_fields json_dumps_genesis_data del: json_dumps.simps)

lemma length_sha_round: "length (sha_round st kw) = 8"
  by (simp add: sha_round_def Let_def)

lemma length_foldl_sha_round:
  "length st = 8 \<Longrightarrow> length (foldl sha_round st kws) = 8"
  by (induction kws arbitrary: st) (simp_all add: length_sha_round)

lemma length_sha_compress: "length hs = 8 \<Longrightarrow> length (sha_compress hs b) = 8"
  by (simp add: sha_compress_def length_foldl_sha_round)

lemma length_foldl_sha_compress:
  "length hs = 8 \<Longrightarrow> length (foldl sha_compress hs bs) = 8"
  by (induction bs arbitrary: hs) (simp_all add: length_sha_compress)

lemma length_hex_u32: "length (hex_u32 w) = 8"
  by (simp add: hex_u32_def)

lemma length_concat_hex: "length (concat (map hex_u32 ws)) = 8 * length ws"
  by (induction ws) (simp_all add: length_hex_u32)

lemma length_sha256_hexdigest: "length (sha256_hexdigest s) = 64"
  by (simp add: sha256_hexdigest_def Let_def length_concat_hex
        length_foldl_sha_compress sha_h0_def)

lemma node_digest_length: "length (node_digest i ty ts t ps) = 64"
  by (simp add: node_digest_def length_sha256_hexdigest)

lemma parents_exist_iff:
  "parents_exist all_nodes ps \<longleftrightarrow> set ps \<subseteq> node_id ` set all_nodes"
  by (induction ps) (auto simp: list_ex_iff)

lemma verify_nodes_True_iff:
  "verify_nodes all_nodes ns = Inr True \<longleftrightarrow>
     (\<forall>n \<in> set ns. compute_hash n = Inr (hash n) \<and> parents_exist all_nodes (parent_ids n))"
  by (induction ns) (auto split: sum.splits)

lemma verify_nodes_append:
  "verify_nodes all_nodes (xs @ ys) =
     (case verify_nodes all_nodes xs of
        Inl e \<Rightarrow> Inl e
      | Inr ok \<Rightarrow> if ok then verify_nodes all_nodes ys else Inr False)"
  by (induction xs) (auto split: sum.splits)

lemma verify_chain_True_iff:
  "verify_chain cs sid = Inr True \<longleftrightarrow>
     (\<exists>ch. cs sid = Some ch \<and> verify_nodes (nodes ch) (nodes ch) = Inr True \<and>
           (nodes ch \<noteq> [] \<longrightarrow> hash (hd (nodes ch)) = root_hash ch))"
  by (auto simp: verify_chain_def split: option.splits sum.splits list.splits)

section \<open>Lineage\<close>

text \<open>
  Claim C1: the list returned by \<^verbatim>\<open>get_node_lineage\<close> puts every node's parents strictly
  before the node and the genesis node first. The traversal is breadth-first and its
  reversal is not a topological order: on the session built by \<^verbatim>\<open>create_session\<close>,
  \<^verbatim>\<open>record_intent\<close> and \<^verbatim>\<open>record_synthesis\<close> with the parents
  \<open>[genesis, intent]\<close>, the lineage of the synthesis node starts with the intent node,
  whose parent, the genesis node, comes second.
\<close>

theorem lineage_diamond_misorders:
  "(case create_session Map.empty (Some ''s'') ''u0'' ''t0'' ''t0'' of (sid, cs0) \<Rightarrow>
    (case record_intent cs0 sid [] None ''u1'' ''t1'' of
      Inl e \<Rightarrow> False
    | Inr (a, cs1) \<Rightarrow>
       (case record_synthesis cs1 sid [] [sid @ ''_genesis'', a] ''u2'' ''t2'' of
          Inl e \<Rightarrow> False
        | Inr (s, cs2) \<Rightarrow>
            map (\<lambda>n. (node_id n, parent_ids n)) (get_node_lineage cs2 sid s)
              = [(''s_u1'', [''s_genesis'']),
                 (''s_genesis'', []),
                 (''s_u2'', [''s_genesis'', ''s_u1''])])))"
  by (simp add: create_session_def record_intent_def add_node_def record_synthesis_def
        get_node_lineage_def node_map_def Let_def compute_hash_fields sort_by_key_def)

section \<open>Creating a session\<close>

text \<open>
  Claim C9, as stated: \<^verbatim>\<open>create_session\<close> fails when the session id is in use and never
  replaces an existing chain. The function has no failing branch: on an engine whose
  session \<open>s\<close> holds a genesis and an intent node, a second \<^verbatim>\<open>create_session\<close> with the
  same id returns the id and leaves a chain of one fresh genesis node.
\<close>

theorem create_session_collision_counterexample:
  "(case create_session Map.empty (Some ''s'') ''u0'' ''t0'' ''t0'' of (sid, cs0) \<Rightarrow>
    (case record_intent cs0 sid [] None ''u1'' ''t1'' of
      Inl e \<Rightarrow> False
    | Inr (a, cs1) \<Rightarrow>
       map_option (\<lambda>ch. map node_type (nodes ch)) (cs1 ''s'') = Some [''genesis'', ''intent''] \<and>
       (case create_session cs1 (Some ''s'') ''u2'' ''t2'' ''t2'' of (sid2, cs2) \<Rightarrow>
          sid2 = ''s'' \<and>
          map_option (\<lambda>ch. map node_type (nodes ch)) (cs2 ''s'') = Some [''genesis''])))"
  by (simp add: create_session_def record_intent_def add_node_def Let_def compute_hash_fields
        sort_by_key_def)

text \<open>
  Claim C9, amended: \<^verbatim>\<open>create_session\<close> with a given id never fails and returns that id;
  afterwards the session holds exactly one node, a fresh genesis node without parents,
  whatever the engine held under that id before, and the new chain verifies:
  \<^verbatim>\<open>verify_chain\<close> returns true on it.
\<close>

theorem create_session_replaces:
  "fst (create_session cs (Some sid) uuid ts created) = sid \<and>
   map_option (\<lambda>ch. map (\<lambda>n. (node_id n, node_type n, parent_ids n)) (nodes ch))
     (snd (create_session cs (Some sid) uuid ts created) sid)
     = Some [(sid @ ''_genesis'', ''genesis'', [])] \<and>
   verify_chain (snd (create_session cs (Some sid) uuid ts created)) sid = Inr True"
  by (simp add: create_session_def Let_def verify_chain_def compute_hash_fields
        json_dumps_genesis_data del: json_dumps.simps)

section \<open>Appending a node\<close>

text \<open>
  Claim C2, as stated: an append fails when a supplied parent id does not exist in the
  chain. On a fresh session, \<^verbatim>\<open>record_step\<close> with the parent \<open>missing\<close> succeeds and
  stores the node, and \<^verbatim>\<open>record_synthesis\<close> then accepts a parent \<open>later\<close> that no node
  carries.
\<close>

theorem add_node_dangling_parent_counterexample:
  "(case create_session Map.empty (Some ''s'') ''u0'' ''t0'' ''t0'' of (sid, cs0) \<Rightarrow>
    (case record_step cs0 sid [] ''missing'' ''u1'' ''t1'' of
      Inl e \<Rightarrow> False
    | Inr (a, cs1) \<Rightarrow>
       a = ''s_u1'' \<and>
       map_option (\<lambda>ch. map (\<lambda>n. (node_id n, parent_ids n)) (nodes ch)) (cs1 ''s'')
         = Some [(''s_genesis'', []), (''s_u1'', [''missing''])] \<and>
       (case record_synthesis cs1 sid [] [''later'', ''s_u1''] ''u2'' ''t2'' of
          Inl e \<Rightarrow> False
        | Inr (s, cs2) \<Rightarrow>
           map_option (\<lambda>ch. map (\<lambda>n. (node_id n, parent_ids n)) (nodes ch)) (cs2 ''s'')
             = Some [(''s_genesis'', []), (''s_u1'', [''missing'']),
                     (''s_u2'', [''later'', ''s_u1''])])))"
  by (simp add: create_session_def record_step_def add_node_def record_synthesis_def Let_def
        compute_hash_fields sort_by_key_def)

text \<open>
  What \<^verbatim>\<open>verify_chain\<close> says once a node with a parent id that no node carries has been
  appended: never true, and false when the chain verified before.
\<close>

lemma verify_nodes_more_nodes:
  "verify_nodes all_nodes ns = Inr True \<Longrightarrow> verify_nodes (all_nodes @ extra) ns = Inr True"
  by (auto simp: verify_nodes_True_iff parents_exist_iff)

lemma verify_after_append:
  assumes ch: "cs sid = Some ch"
      and h: "compute_hash n = Inr (hash n)"
      and dangling: "\<not> set (parent_ids n) \<subseteq> insert (node_id n) (node_id ` set (nodes ch))"
  shows "verify_chain (cs(sid \<mapsto> ch\<lparr>nodes := nodes ch @ [n]\<rparr>)) sid \<noteq> Inr True"
    and "verify_chain cs sid = Inr True \<Longrightarrow>
         verify_chain (cs(sid \<mapsto> ch\<lparr>nodes := nodes ch @ [n]\<rparr>)) sid = Inr False"
proof -
  let ?all = "nodes ch @ [n]"
  have npe: "\<not> parents_exist ?all (parent_ids n)"
    using dangling by (auto simp: parents_exist_iff)
  show "verify_chain (cs(sid \<mapsto> ch\<lparr>nodes := nodes ch @ [n]\<rparr>)) sid \<noteq> Inr True"
    using npe by (auto simp: verify_chain_True_iff verify_nodes_True_iff)
  assume ok: "verify_chain cs sid = Inr True"
  then have "verify_nodes (nodes ch) (nodes ch) = Inr True"
    using ch by (auto simp: verify_chain_True_iff)
  then have "verify_nodes ?all (nodes ch) = Inr True"
    by (rule verify_nodes_more_nodes)
  then have "verify_nodes ?all ?all = Inr False"
    using h npe by (simp add: verify_nodes_append)
  then show "verify_chain (cs(sid \<mapsto> ch\<lparr>nodes := nodes ch @ [n]\<rparr>)) sid = Inr False"
    by (simp add: verify_chain_def)
qed

text \<open>
  Claim C2, amended: no append looks at the parent ids. \<^verbatim>\<open>_add_node\<close> (behind
  \<^verbatim>\<open>record_intent\<close>, \<^verbatim>\<open>record_plan\<close>, \<^verbatim>\<open>record_step\<close>, \<^verbatim>\<open>record_result\<close>) and
  \<^verbatim>\<open>record_synthesis\<close> raise the \<^verbatim>\<open>ValueError\<close> for an untracked session; on a tracked
  session they raise what \<^verbatim>\<open>json.dumps\<close> raises on the payload, appending nothing, and
  otherwise they succeed and append one node carrying exactly the supplied parent ids,
  whether or not those ids exist in the chain. A parent id carried by no node of the
  chain is found only afterwards, by \<^verbatim>\<open>verify_chain\<close>, which then never returns true, and
  returns false when the chain verified before the append.
\<close>

theorem append_checks_no_parent:
  "(case cs sid of
      None \<Rightarrow>
        add_node cs sid ty d p uuid ts = Inl (ValueError (''Session '' @ sid @ '' not found'')) \<and>
        record_synthesis cs sid d ps uuid ts
          = Inl (ValueError (''Session '' @ sid @ '' not found''))
    | Some ch \<Rightarrow>
       (case json_dumps (PDict d) of
          Inl e \<Rightarrow>
            add_node cs sid ty d p uuid ts = Inl e \<and>
            record_synthesis cs sid d ps uuid ts = Inl e
        | Inr t \<Rightarrow>
            (\<exists>cs'. add_node cs sid ty d p uuid ts = Inr (sid @ ''_'' @ uuid, cs') \<and>
               map_option (\<lambda>c. map (\<lambda>n. (node_id n, parent_ids n)) (nodes c)) (cs' sid)
                 = Some (map (\<lambda>n. (node_id n, parent_ids n)) (nodes ch)
                         @ [(sid @ ''_'' @ uuid, [p])]) \<and>
               (p \<notin> insert (sid @ ''_'' @ uuid) (node_id ` set (nodes ch)) \<longrightarrow>
                  verify_chain cs' sid \<noteq> Inr True \<and>
                  (verify_chain cs sid = Inr True \<longrightarrow> verify_chain cs' sid = Inr False))) \<and>
            (\<exists>cs'. record_synthesis cs sid d ps uuid ts = Inr (sid @ ''_'' @ uuid, cs') \<and>
               map_option (\<lambda>c. map (\<lambda>n. (node_id n, parent_ids n)) (nodes c)) (cs' sid)
                 = Some (map (\<lambda>n. (node_id n, parent_ids n)) (nodes ch)
                         @ [(sid @ ''_'' @ uuid, ps)]) \<and>
               (\<not> set ps \<subseteq> insert (sid @ ''_'' @ uuid) (node_id ` set (nodes ch)) \<longrightarrow>
                  verify_chain cs' sid \<noteq> Inr True \<and>
                  (verify_chain cs sid = Inr True \<longrightarrow> verify_chain cs' sid = Inr False)))))"
proof (cases "cs sid")
  case None
  then show ?thesis by (simp add: add_node_def record_synthesis_def Let_def)
next
  case (Some ch)
  show ?thesis
  proof (cases "json_dumps (PDict d)")
    case (Inl e)
    then show ?thesis
      using Some
      by (simp add: add_node_def record_synthesis_def Let_def compute_hash_fields
            del: json_dumps.simps)
  next
    case (Inr t)
    let ?nid = "sid @ ''_'' @ uuid"
    let ?a = "\<lparr>node_id = ?nid, node_type = ty, timestamp = ts, data = d,
               parent_ids = [p], hash = node_digest ?nid ty ts t [p]\<rparr>"
    let ?s = "\<lparr>node_id = ?nid, node_type = ''synthesis'', timestamp = ts, data = d,
               parent_ids = ps, hash = node_digest ?nid ''synthesis'' ts t ps\<rparr>"
    have ha: "compute_hash ?a = Inr (hash ?a)" and hs: "compute_hash ?s = Inr (hash ?s)"
      using Inr by (simp_all add: compute_hash_fields del: json_dumps.simps)
    have ea: "add_node cs sid ty d p uuid ts
                = Inr (?nid, cs(sid \<mapsto> ch\<lparr>nodes := nodes ch @ [?a]\<rparr>))"
      using Some Inr
      by (simp add: add_node_def Let_def compute_hash_fields del: json_dumps.simps)
    have es: "record_synthesis cs sid d ps uuid ts
                = Inr (?nid, cs(sid \<mapsto> ch\<lparr>nodes := nodes ch @ [?s]\<rparr>))"
      using Some Inr
      by (simp add: record_synthesis_def Let_def compute_hash_fields del: json_dumps.simps)
    have va: "p \<notin> insert ?nid (node_id ` set (nodes ch)) \<Longrightarrow>
                verify_chain (cs(sid \<mapsto> ch\<lparr>nodes := nodes ch @ [?a]\<rparr>)) sid \<noteq> Inr True \<and>
                (verify_chain cs sid = Inr True \<longrightarrow>
                 verify_chain (cs(sid \<mapsto> ch\<lparr>nodes := nodes ch @ [?a]\<rparr>)) sid = Inr False)"
      using verify_after_append [of cs sid ch ?a, OF Some ha] by simp
    have vs: "\<not> set ps \<subseteq> insert ?nid (node_id ` set (nodes ch)) \<Longrightarrow>
                verify_chain (cs(sid \<mapsto> ch\<lparr>nodes := nodes ch @ [?s]\<rparr>)) sid \<noteq> Inr True \<and>
                (verify_chain cs sid = Inr True \<longrightarrow>
                 verify_chain (cs(sid \<mapsto> ch\<lparr>nodes := nodes ch @ [?s]\<rparr>)) sid = Inr False)"
      using verify_after_append [of cs sid ch ?s, OF Some hs] by simp
    show ?thesis
      using Some Inr va vs by (simp add: ea es del: json_dumps.simps)
  qed
qed

lemma engine_s_chain:
  "engine_s ''s'' = Some
     \<lparr>session_id = ''s'',
      nodes = [\<lparr>node_id = ''s_genesis'', node_type = ''genesis'', timestamp = ''t0'',
                data = [(''session_id'', PStr ''s''), (''created_at'', PStr ''t0'')],
                parent_ids = [],
                hash = node_digest ''s_genesis'' ''genesis'' ''t0''
                         (''{'' @ json_str ''created_at'' @ '': '' @ json_str ''t0'' @ '', '' @
                          json_str ''session_id'' @ '': '' @ json_str ''s'' @ ''}'') []\<rparr>],
      root_hash = node_digest ''s_genesis'' ''genesis'' ''t0''
                         (''{'' @ json_str ''created_at'' @ '': '' @ json_str ''t0'' @ '', '' @
                          json_str ''session_id'' @ '': '' @ json_str ''s'' @ ''}'') []\<rparr>"
  by (simp add: engine_s_def create_session_def Let_def compute_hash_fields
        json_dumps_genesis_data del: json_dumps.simps)

lemma engine_s_verified: "verify_chain engine_s ''s'' = Inr True"
  by (simp add: verify_chain_def engine_s_chain compute_hash_fields json_dumps_genesis_data
        del: json_dumps.simps)

text \<open>
  Claim C2, amended, at the fresh session \<open>s\<close>: a step under the parent \<open>missing\<close> and a
  synthesis under \<open>[s_genesis, later]\<close> are both stored, and \<^verbatim>\<open>verify_chain\<close> then returns
  false; a payload that holds a set makes both appends raise the \<^verbatim>\<open>TypeError\<close> of
  \<^verbatim>\<open>json.dumps\<close>, although the parent exists; on the empty engine the append raises the
  \<^verbatim>\<open>ValueError\<close>.
\<close>

theorem append_checks_no_parent_witness:
  "engine_s ''s'' \<noteq> None \<and>
   verify_chain engine_s ''s'' = Inr True \<and>
   json_dumps (PDict []) = Inr ''{}'' \<and>
   (\<exists>cs'. add_node engine_s ''s'' ''step'' [] ''missing'' ''u1'' ''t1'' = Inr (''s_u1'', cs') \<and>
          verify_chain cs' ''s'' = Inr False) \<and>
   (\<exists>cs'. record_synthesis engine_s ''s'' [] [''s_genesis'', ''later''] ''u1'' ''t1''
            = Inr (''s_u1'', cs') \<and>
          verify_chain cs' ''s'' = Inr False) \<and>
   json_dumps (PDict [(''tags'', PRaises set_not_serializable)]) = Inl set_not_serializable \<and>
   add_node engine_s ''s'' ''step'' [(''tags'', PRaises set_not_serializable)] ''s_genesis''
       ''u1'' ''t1'' = Inl set_not_serializable \<and>
   record_synthesis engine_s ''s'' [(''tags'', PRaises set_not_serializable)] [''s_genesis'']
       ''u1'' ''t1'' = Inl set_not_serializable \<and>
   add_node Map.empty ''s'' ''step'' [] ''s_genesis'' ''u1'' ''t1''
     = Inl (ValueError ''Session s not found'')"
  using append_checks_no_parent [of engine_s "''s''" "''step''" "[]" "''missing''" "''u1''"
          "''t1''" "[''s_genesis'', ''later'']"]
        append_checks_no_parent [of engine_s "''s''" "''step''"
          "[(''tags'', PRaises set_not_serializable)]" "''s_genesis''" "''u1''" "''t1''"
          "[''s_genesis'']"]
        append_checks_no_parent [of Map.empty "''s''" "''step''" "[]" "''s_genesis''" "''u1''"
          "''t1''" "[]"]
  by (auto simp: engine_s_chain engine_s_verified sort_by_key_def)

section \<open>Importing a chain\<close>

text \<open>
  The two ways in which a stored document fails verification: \<^verbatim>\<open>verify_chain\<close> returns
  false and the entry is deleted, or \<^verbatim>\<open>verify_chain\<close> raises and the entry stays.
\<close>

lemma import_chain_verify_false:
  assumes "verify_chain (cs(session_id ch \<mapsto> ch)) (session_id ch) = Inr False"
  shows "import_chain cs (Some ch) = (False, cs(session_id ch := None))"
  using assms by (simp add: import_chain_def Let_def)

lemma import_chain_verify_raises:
  assumes "verify_chain (cs(session_id ch \<mapsto> ch)) (session_id ch) = Inl e"
  shows "import_chain cs (Some ch) = (False, cs(session_id ch \<mapsto> ch))"
  using assms by (simp add: import_chain_def Let_def)

text \<open>
  Claim C10: when the engine tracks a chain for a session that verifies, and
  \<^verbatim>\<open>import_chain\<close> is given a document for the same session that fails verification,
  the call returns false and the engine is left with no chain for that session. The
  \<^verbatim>\<open>else\<close> branch does delete the entry when \<^verbatim>\<open>verify_chain\<close> returns false. When
  \<^verbatim>\<open>verify_chain\<close> raises, the \<^verbatim>\<open>except\<close> branch returns false without deleting: for the
  document \<open>doc_with_set\<close>, whose payload holds a set, the engine that tracked a verified
  chain for \<open>s\<close> is left tracking the imported, unverified document under \<open>s\<close>.
\<close>

theorem import_chain_keeps_unverified_chain:
  "verify_chain engine_s ''s'' = Inr True \<and>
   verify_chain (engine_s(''s'' \<mapsto> doc_with_set)) ''s'' = Inl set_not_serializable \<and>
   import_chain engine_s (Some doc_with_set) = (False, engine_s(''s'' \<mapsto> doc_with_set)) \<and>
   snd (import_chain engine_s (Some doc_with_set)) ''s'' = Some doc_with_set \<and>
   snd (import_chain engine_s (Some doc_with_set)) ''s'' \<noteq> None \<and>
   snd (import_chain engine_s (Some doc_with_set)) ''s'' \<noteq> engine_s ''s''"
proof -
  have v: "verify_chain (engine_s(''s'' \<mapsto> doc_with_set)) ''s'' = Inl set_not_serializable"
    by (simp add: verify_chain_def doc_with_set_def compute_hash_fields sort_by_key_def)
  have sid: "session_id doc_with_set = ''s''"
    by (simp add: doc_with_set_def)
  have i: "import_chain engine_s (Some doc_with_set) = (False, engine_s(''s'' \<mapsto> doc_with_set))"
    using import_chain_verify_raises [of engine_s doc_with_set set_not_serializable] v
    by (simp add: sid)
  have ne: "Some doc_with_set \<noteq> engine_s ''s''"
    by (simp add: engine_s_chain doc_with_set_def)
  show ?thesis
    using v i ne by (simp add: engine_s_verified)
qed

section \<open>Tampering with a payload\<close>

lemma node_text_inject: "node_text i ty ts t ps = node_text i ty ts t' ps \<longleftrightarrow> t = t'"
  by (simp add: node_text_def)

lemma node_digest_eq_iff_sym:
  "node_digest i ty ts t ps = node_digest i ty ts t' ps \<longleftrightarrow>
     t' = t \<or> sha256_collides (node_text i ty ts t' ps) (node_text i ty ts t ps)"
  by (auto simp: node_digest_def sha256_collides_def node_text_inject)

lemma parents_exist_ids:
  "map node_id xs = map node_id ys \<Longrightarrow> parents_exist xs ps = parents_exist ys ps"
proof -
  assume "map node_id xs = map node_id ys"
  then have "node_id ` set xs = node_id ` set ys"
    by (metis set_map)
  then show ?thesis by (simp add: parents_exist_iff)
qed

lemma map_node_id_data_update:
  "map node_id (ns[i := (ns ! i)\<lparr>data := d\<rparr>]) = map node_id ns"
proof (cases "i < length ns")
  case True
  then show ?thesis
    by (intro nth_equalityI) (auto simp: nth_list_update)
next
  case False
  then have "length ns \<le> i" by simp
  then show ?thesis by (simp add: list_update_beyond)
qed

text \<open>
  The loop of \<^verbatim>\<open>verify_chain\<close> over a list whose nodes all pass except, possibly, the
  one at position \<open>i\<close>: the verdict is the one on that node.
\<close>

lemma verify_nodes_one_changed:
  assumes i: "i < length ns"
      and rest: "\<And>j. j < length ns \<Longrightarrow> j \<noteq> i \<Longrightarrow>
               compute_hash (ns ! j) = Inr (hash (ns ! j)) \<and>
               parents_exist all_nodes (parent_ids (ns ! j))"
      and pe: "parents_exist all_nodes (parent_ids (ns ! i))"
  shows "verify_nodes all_nodes ns =
           (case compute_hash (ns ! i) of
              Inl e \<Rightarrow> Inl e
            | Inr h \<Rightarrow> Inr (hash (ns ! i) = h))"
proof -
  have split: "ns = take i ns @ [ns ! i] @ drop (Suc i) ns"
    using i by (simp add: Cons_nth_drop_Suc)
  have before: "verify_nodes all_nodes (take i ns) = Inr True"
    unfolding verify_nodes_True_iff
  proof
    fix n assume "n \<in> set (take i ns)"
    then obtain j where "j < i" "n = ns ! j"
      using i by (auto simp: in_set_conv_nth)
    then show "compute_hash n = Inr (hash n) \<and> parents_exist all_nodes (parent_ids n)"
      using rest [of j] i by simp
  qed
  have after: "verify_nodes all_nodes (drop (Suc i) ns) = Inr True"
    unfolding verify_nodes_True_iff
  proof
    fix n assume "n \<in> set (drop (Suc i) ns)"
    then obtain j where "j < length ns - Suc i" "n = ns ! (Suc i + j)"
      by (auto simp: in_set_conv_nth)
    then show "compute_hash n = Inr (hash n) \<and> parents_exist all_nodes (parent_ids n)"
      using rest [of "Suc i + j"] by simp
  qed
  have "verify_nodes all_nodes ns
          = verify_nodes all_nodes (take i ns @ [ns ! i] @ drop (Suc i) ns)"
    using split by simp
  also have "\<dots> = (case compute_hash (ns ! i) of
                     Inl e \<Rightarrow> Inl e
                   | Inr h \<Rightarrow> Inr (hash (ns ! i) = h))"
    using pe by (auto simp: verify_nodes_append before after split: sum.splits)
  finally show ?thesis .
qed

lemma verify_chain_tamper_field:
  assumes ok: "verify_chain cs sid = Inr True"
      and ch: "cs sid = Some ch"
      and i: "i < length (nodes ch)"
  shows "verify_chain (tamper_field cs sid i k v) sid =
           (case compute_hash ((nodes ch ! i)\<lparr>data := dict_set k v (data (nodes ch ! i))\<rparr>) of
              Inl e \<Rightarrow> Inl e
            | Inr h \<Rightarrow> Inr (hash (nodes ch ! i) = h))"
proof -
  let ?ns = "nodes ch"
  let ?n' = "(?ns ! i)\<lparr>data := dict_set k v (data (?ns ! i))\<rparr>"
  let ?ns' = "?ns[i := ?n']"
  have ids: "map node_id ?ns' = map node_id ?ns"
    by (rule map_node_id_data_update)
  have pe: "\<And>ps. parents_exist ?ns' ps = parents_exist ?ns ps"
    by (rule parents_exist_ids [OF ids])
  from ok ch have vn: "verify_nodes ?ns ?ns = Inr True"
    by (simp add: verify_chain_True_iff)
  from ok ch i have root: "hash (?ns ! 0) = root_hash ch"
    by (cases ?ns) (auto simp: verify_chain_True_iff)
  have old: "\<And>j. j < length ?ns \<Longrightarrow>
      compute_hash (?ns ! j) = Inr (hash (?ns ! j)) \<and> parents_exist ?ns (parent_ids (?ns ! j))"
    using vn by (simp add: verify_nodes_True_iff)
  have vn': "verify_nodes ?ns' ?ns' =
               (case compute_hash (?ns' ! i) of
                  Inl e \<Rightarrow> Inl e
                | Inr h \<Rightarrow> Inr (hash (?ns' ! i) = h))"
  proof (rule verify_nodes_one_changed)
    show "i < length ?ns'" using i by simp
  next
    fix j assume "j < length ?ns'" "j \<noteq> i"
    then show "compute_hash (?ns' ! j) = Inr (hash (?ns' ! j)) \<and>
               parents_exist ?ns' (parent_ids (?ns' ! j))"
      using old [of j] by (simp add: pe)
  next
    show "parents_exist ?ns' (parent_ids (?ns' ! i))"
      using old [of i] i by (simp add: pe)
  qed
  have root': "hash (?ns' ! 0) = root_hash ch"
    using root i by (cases "i = 0") simp_all
  have ne: "?ns' \<noteq> []" using i by auto
  have t: "tamper_field cs sid i k v = cs(sid \<mapsto> ch\<lparr>nodes := ?ns'\<rparr>)"
    using ch i by (simp add: tamper_field_def)
  have "verify_chain (tamper_field cs sid i k v) sid =
          (case verify_nodes ?ns' ?ns' of Inl e \<Rightarrow> Inl e | Inr b \<Rightarrow> Inr b)"
    using root' ne unfolding t
    by (cases ?ns') (auto simp: verify_chain_def split: sum.splits)
  then show ?thesis
    using i by (simp add: vn' split: sum.splits)
qed

text \<open>
  Claim C6, amended: on a chain that verifies, assigning a value to a field of a node's
  payload makes \<^verbatim>\<open>verify_chain\<close> return false exactly when the assignment changes the
  JSON text that \<^verbatim>\<open>json.dumps\<close> writes for the payload, unless SHA-256 collides on the
  canonical texts of the node before and after. An assignment that leaves the JSON text
  as it was is not detected. An assignment of a value that \<^verbatim>\<open>json.dumps\<close> cannot write
  makes \<^verbatim>\<open>verify_chain\<close> raise.
\<close>

theorem tamper_detected_iff_json_changes:
  assumes ok: "verify_chain cs sid = Inr True"
      and ch: "cs sid = Some ch"
      and i: "i < length (nodes ch)"
  shows "\<exists>t. json_dumps (PDict (data (nodes ch ! i))) = Inr t \<and>
           verify_chain (tamper_field cs sid i k v) sid =
             (case json_dumps (PDict (dict_set k v (data (nodes ch ! i)))) of
                Inl e \<Rightarrow> Inl e
              | Inr t' \<Rightarrow>
                  Inr (t' = t \<or>
                       sha256_collides
                         (node_text (node_id (nodes ch ! i)) (node_type (nodes ch ! i))
                            (timestamp (nodes ch ! i)) t' (parent_ids (nodes ch ! i)))
                         (node_text (node_id (nodes ch ! i)) (node_type (nodes ch ! i))
                            (timestamp (nodes ch ! i)) t (parent_ids (nodes ch ! i)))))"
proof -
  let ?n = "nodes ch ! i"
  from ok ch have "verify_nodes (nodes ch) (nodes ch) = Inr True"
    by (simp add: verify_chain_True_iff)
  then have h: "compute_hash ?n = Inr (hash ?n)"
    using i by (simp add: verify_nodes_True_iff)
  then obtain t where t: "json_dumps (PDict (data ?n)) = Inr t"
    and ht: "hash ?n = node_digest (node_id ?n) (node_type ?n) (timestamp ?n) t (parent_ids ?n)"
    by (auto simp: compute_hash_text split: sum.splits simp del: json_dumps.simps)
  have "verify_chain (tamper_field cs sid i k v) sid =
             (case json_dumps (PDict (dict_set k v (data ?n))) of
                Inl e \<Rightarrow> Inl e
              | Inr t' \<Rightarrow>
                  Inr (t' = t \<or>
                       sha256_collides
                         (node_text (node_id ?n) (node_type ?n) (timestamp ?n) t' (parent_ids ?n))
                         (node_text (node_id ?n) (node_type ?n) (timestamp ?n) t (parent_ids ?n))))"
    unfolding verify_chain_tamper_field [OF ok ch i] compute_hash_text ht
    by (simp add: node_digest_eq_iff_sym split: sum.splits del: json_dumps.simps)
  with t show ?thesis by blast
qed

lemma json_dumps_k_list:
  "json_dumps (PDict [(''k'', PList [PInt 1, PInt 2])]) = Inr (''{'' @ json_str ''k'' @ '': [1, 2]}'')"
  by (simp add: sort_by_key_def json_int_def dec_digits.simps hex_digit_def)

lemma json_dumps_k_tuple:
  "json_dumps (PDict [(''k'', PTuple [PInt 1, PInt 2])]) = Inr (''{'' @ json_str ''k'' @ '': [1, 2]}'')"
  by (simp add: sort_by_key_def json_int_def dec_digits.simps hex_digit_def)

lemma json_dumps_k_seven:
  "json_dumps (PDict [(''k'', PInt 7)]) = Inr (''{'' @ json_str ''k'' @ '': 7}'')"
  by (simp add: sort_by_key_def json_int_def dec_digits.simps hex_digit_def)

lemma engine_s_intent_chain:
  "engine_s_intent ''s'' = Some
     \<lparr>session_id = ''s'',
      nodes = [\<lparr>node_id = ''s_genesis'', node_type = ''genesis'', timestamp = ''t0'',
                data = [(''session_id'', PStr ''s''), (''created_at'', PStr ''t0'')],
                parent_ids = [],
                hash = node_digest ''s_genesis'' ''genesis'' ''t0''
                         (''{'' @ json_str ''created_at'' @ '': '' @ json_str ''t0'' @ '', '' @
                          json_str ''session_id'' @ '': '' @ json_str ''s'' @ ''}'') []\<rparr>,
               \<lparr>node_id = ''s_u1'', node_type = ''intent'', timestamp = ''t1'',
                data = [(''k'', PList [PInt 1, PInt 2])],
                parent_ids = [''s_genesis''],
                hash = node_digest ''s_u1'' ''intent'' ''t1''
                         (''{'' @ json_str ''k'' @ '': [1, 2]}'') [''s_genesis'']\<rparr>],
      root_hash = node_digest ''s_genesis'' ''genesis'' ''t0''
                         (''{'' @ json_str ''created_at'' @ '': '' @ json_str ''t0'' @ '', '' @
                          json_str ''session_id'' @ '': '' @ json_str ''s'' @ ''}'') []\<rparr>"
  by (simp add: engine_s_intent_def record_intent_def add_node_def Let_def engine_s_chain
        compute_hash_fields json_dumps_k_list del: json_dumps.simps)

lemma engine_s_intent_verified: "verify_chain engine_s_intent ''s'' = Inr True"
  by (simp add: verify_chain_def engine_s_intent_chain compute_hash_fields
        json_dumps_genesis_data json_dumps_k_list del: json_dumps.simps)

text \<open>
  Claim C6, as stated: mutating a field of a payload to a different value makes
  \<^verbatim>\<open>verify_chain\<close> return false. Replacing the list \<open>[1, 2]\<close> under the key \<open>k\<close> of the
  intent node by the tuple \<open>(1, 2)\<close> changes the payload, but \<^verbatim>\<open>json.dumps\<close> writes both as
  the same array, the digest is unchanged and the chain still verifies.
\<close>

theorem tamper_list_to_tuple_undetected:
  "map_option (\<lambda>ch. data (nodes ch ! 1)) (engine_s_intent ''s'')
     = Some [(''k'', PList [PInt 1, PInt 2])] \<and>
   map_option (\<lambda>ch. data (nodes ch ! 1))
       (tamper_field engine_s_intent ''s'' 1 ''k'' (PTuple [PInt 1, PInt 2]) ''s'')
     = Some [(''k'', PTuple [PInt 1, PInt 2])] \<and>
   PTuple [PInt 1, PInt 2] \<noteq> PList [PInt 1, PInt 2] \<and>
   verify_chain engine_s_intent ''s'' = Inr True \<and>
   verify_chain (tamper_field engine_s_intent ''s'' 1 ''k'' (PTuple [PInt 1, PInt 2])) ''s''
     = Inr True"
  by (simp add: engine_s_intent_verified)
     (simp add: verify_chain_def tamper_field_def engine_s_intent_chain compute_hash_fields
        json_dumps_genesis_data json_dumps_k_list json_dumps_k_tuple del: json_dumps.simps)

text \<open>
  The digests of the intent node of the session \<open>s\<close> with the payloads \<open>{"k": [1, 2]}\<close>
  and \<open>{"k": 7}\<close>, computed.
\<close>

lemma digest_intent_list:
  "sha256_hexdigest (node_text ''s_u1'' ''intent'' ''t1'' (''{'' @ json_str ''k'' @ '': [1, 2]}'')
       [''s_genesis''])
     = ''b81fbc80142b4d142426c7d00d1643ed180c3cc26d0c3bf313c8256f07c724c9''"
  by code_simp

lemma digest_intent_seven:
  "sha256_hexdigest (node_text ''s_u1'' ''intent'' ''t1'' (''{'' @ json_str ''k'' @ '': 7}'')
       [''s_genesis''])
     = ''95ebec53ad086aeef24042f9a6e532afdb960a376c0e164ee0e6c28b1732e744''"
  by code_simp

text \<open>
  Claim C6, amended, on the session \<open>s\<close> with its intent node: setting the key \<open>k\<close> to
  \<open>7\<close> changes the JSON text of the payload, the two digests differ, and \<^verbatim>\<open>verify_chain\<close>
  returns false; setting it to a set makes \<^verbatim>\<open>verify_chain\<close> raise.
\<close>

theorem tamper_detected_iff_json_changes_witness:
  "verify_chain engine_s_intent ''s'' = Inr True \<and>
   map_option (\<lambda>ch. data (nodes ch ! 1)) (engine_s_intent ''s'')
     = Some [(''k'', PList [PInt 1, PInt 2])] \<and>
   json_dumps (PDict [(''k'', PList [PInt 1, PInt 2])]) = Inr (''{'' @ json_str ''k'' @ '': [1, 2]}'') \<and>
   json_dumps (PDict [(''k'', PInt 7)]) = Inr (''{'' @ json_str ''k'' @ '': 7}'') \<and>
   verify_chain (tamper_field engine_s_intent ''s'' 1 ''k'' (PInt 7)) ''s'' = Inr False \<and>
   verify_chain (tamper_field engine_s_intent ''s'' 1 ''k'' (PRaises set_not_serializable)) ''s''
     = Inl set_not_serializable"
proof -
  have nc: "\<not> sha256_collides
              (node_text ''s_u1'' ''intent'' ''t1'' (''{'' @ json_str ''k'' @ '': 7}'')
                 [''s_genesis''])
              (node_text ''s_u1'' ''intent'' ''t1'' (''{'' @ json_str ''k'' @ '': [1, 2]}'')
                 [''s_genesis''])"
    unfolding sha256_collides_def digest_intent_list digest_intent_seven by simp
  have r: "json_dumps (PDict [(''k'', PRaises set_not_serializable)]) = Inl set_not_serializable"
    by (simp add: sort_by_key_def)
  show ?thesis
    using tamper_detected_iff_json_changes
            [OF engine_s_intent_verified engine_s_intent_chain, of 1 "''k''" "PInt 7"]
          tamper_detected_iff_json_changes
            [OF engine_s_intent_verified engine_s_intent_chain, of 1 "''k''"
               "PRaises set_not_serializable"]
          nc
    by (simp add: engine_s_intent_verified engine_s_intent_chain json_dumps_k_list
          json_dumps_k_seven r del: json_dumps.simps)
qed

section \<open>The guardian's risk tolerance\<close>

text \<open>
  Claim C8: after a budget approval the risk tolerance is
  \<open>0.9 * tolerance + 0.1 * clamp (amount / 1000) 0 1\<close> and so stays within \<open>[0, 1]\<close>, for
  negative amounts too. \<^verbatim>\<open>_update_profile\<close> bounds the normalised amount from above only
  (\<^verbatim>\<open>min(amount / 1000.0, 1.0)\<close>, under the comment "Normalize to 0-1"): one approval of
  \<open>-10000\<close> by a new operator takes the tolerance from \<open>0.5\<close> to \<open>-0.55\<close>.
\<close>

theorem risk_tolerance_negative_amount:
  "risk_tolerance (profile (new_guardian ''op'')) = 0.5 \<and>
   risk_tolerance (profile (record_decision (new_guardian ''op'') ''budget_approval''
       [(''amount'', - 10000)])) = - 0.55"
  by (simp add: new_guardian_def record_decision_def update_profile_def Let_def)

section \<open>The guardian's anomaly check\<close>












section \<open>Sending a request\<close>

lemma send_attempts_all_fail:
  assumes fail: "\<forall>k. a \<le> k \<and> k < n \<longrightarrow> execute_request post k spec request = Inl (msg k)"
      and n: "n = nat max_retries"
      and a: "a < n"
  shows "send_attempts post max_retries spec request [a..<n] tr =
           (error_response spec request (msg (n - 1)),
            \<lparr>attempts = attempts tr + (n - a), sleeps = sleeps tr @ map (\<lambda>k. 2 ^ k) [a..<n - 1]\<rparr>)"
  using fail a
proof (induction "n - a" arbitrary: a tr)
  case 0
  then show ?case by simp
next
  case (Suc d)
  have hd: "[a..<n] = a # [Suc a..<n]"
    using Suc.prems(2) by (simp add: upt_conv_Cons)
  have fa: "execute_request post a spec request = Inl (msg a)"
    using Suc.prems by simp
  show ?case
  proof (cases "Suc a < n")
    case True
    then have lt: "int a < max_retries - 1" using n by linarith
    have d: "d = n - Suc a" using Suc.hyps(2) by simp
    have fail': "\<forall>k. Suc a \<le> k \<and> k < n \<longrightarrow> execute_request post k spec request = Inl (msg k)"
      using Suc.prems(1) by simp
    have up: "[a..<n - 1] = a # [Suc a..<n - 1]"
      using True by (simp add: upt_conv_Cons)
    show ?thesis
      using Suc.hyps(1) [OF d fail' True,
          of "tr\<lparr>attempts := attempts tr + 1, sleeps := sleeps tr @ [2 ^ a]\<rparr>"]
        True lt
      by (auto simp: hd fa upt_conv_Cons)
  next
    case False
    then have eq: "n = Suc a" using Suc.prems(2) by simp
    then have nlt: "\<not> int a < max_retries - 1" using n by linarith
    show ?thesis
      using nlt by (simp add: hd fa eq error_response_def)
  qed
qed

lemma sorted_powers: "sorted_wrt (<) (map (\<lambda>k. (2::nat) ^ k) [a..<b])"
  by (simp add: sorted_wrt_map sorted_wrt_upt [unfolded sorted_wrt_iff_nth_less] sorted_wrt_iff_nth_less)

text \<open>
  Claim C5, amended: when every attempt on a target fails, \<^verbatim>\<open>send_request\<close> with
  \<open>max_retries \<ge> 1\<close> posts exactly \<open>max_retries\<close> times, sleeps \<open>2 ^ attempt\<close> between
  consecutive attempts (\<open>1, 2, 4, \<dots>\<close>, strictly increasing) and returns, without raising,
  a response with no result, cost \<open>0.0\<close> and, as its error, the text of the last attempt's
  exception, which is empty when that exception has no message. With \<open>max_retries \<le> 0\<close>
  it posts nothing and returns the error "Max retries exceeded".
\<close>

theorem send_request_all_attempts_fail:
  assumes "\<forall>k < nat max_retries.
             post k (endpoint spec @ ''/tools/'' @ tool) (make_request spec tool params md rid)
               = Inl (msg k)"
  shows "(0 < max_retries \<longrightarrow>
            attempts (snd (send_request post max_retries spec tool params md rid)) = nat max_retries \<and>
            sleeps (snd (send_request post max_retries spec tool params md rid))
              = map (\<lambda>k. 2 ^ k) [0..<nat max_retries - 1] \<and>
            error (fst (send_request post max_retries spec tool params md rid))
              = Some (msg (nat max_retries - 1))) \<and>
         (max_retries \<le> 0 \<longrightarrow>
            attempts (snd (send_request post max_retries spec tool params md rid)) = 0 \<and>
            sleeps (snd (send_request post max_retries spec tool params md rid)) = [] \<and>
            error (fst (send_request post max_retries spec tool params md rid))
              = Some ''Max retries exceeded'') \<and>
         sorted_wrt (<) (sleeps (snd (send_request post max_retries spec tool params md rid))) \<and>
         cost (fst (send_request post max_retries spec tool params md rid)) = 0 \<and>
         result (fst (send_request post max_retries spec tool params md rid)) = PNone"
proof (cases "0 < max_retries")
  case True
  let ?rq = "make_request spec tool params md rid"
  have fail: "\<forall>k. 0 \<le> k \<and> k < nat max_retries \<longrightarrow>
                execute_request post k spec ?rq = Inl (msg k)"
    using assms by (simp add: execute_request_def make_request_def)
  have pos: "0 < nat max_retries" using True by simp
  have "send_request post max_retries spec tool params md rid =
          (error_response spec ?rq (msg (nat max_retries - 1)),
           \<lparr>attempts = nat max_retries, sleeps = map (\<lambda>k. 2 ^ k) [0..<nat max_retries - 1]\<rparr>)"
    using send_attempts_all_fail [OF fail refl pos, of "\<lparr>attempts = 0, sleeps = []\<rparr>"]
    by (simp add: send_request_def Let_def)
  then show ?thesis
    using True by (simp add: error_response_def sorted_powers)
next
  case False
  then have "nat max_retries = 0" by simp
  then show ?thesis
    using False by (simp add: send_request_def Let_def)
qed

text \<open>
  Claim C5, as stated: the response carries a non-empty error message. Against a target
  whose every attempt raises an exception with an empty text (\<^verbatim>\<open>str(e) == ""\<close>, as a
  timeout does), three attempts with the sleeps 1 and 2 end in a response whose error
  is the empty string.
\<close>

theorem send_request_empty_error_counterexample:
  "error (fst (send_request (\<lambda>k url rq. Inl []) 3
       \<lparr>name = ''srv'', endpoint = ''http://h'', cost_per_call = 0\<rparr> ''tool'' [] None ''r1''))
     = Some [] \<and>
   attempts (snd (send_request (\<lambda>k url rq. Inl []) 3
       \<lparr>name = ''srv'', endpoint = ''http://h'', cost_per_call = 0\<rparr> ''tool'' [] None ''r1'')) = 3 \<and>
   sleeps (snd (send_request (\<lambda>k url rq. Inl []) 3
       \<lparr>name = ''srv'', endpoint = ''http://h'', cost_per_call = 0\<rparr> ''tool'' [] None ''r1'')) = [1, 2]"
  by (simp add: send_request_def make_request_def execute_request_def upt_conv_Cons Let_def)

text \<open>
  Claim C5, amended, against a target whose attempt \<open>k\<close> fails with "boom k", for three
  retries: three posts, the sleeps 1 and 2, the error "boom 2" and cost 0.
\<close>

theorem send_request_all_attempts_fail_witness:
  "attempts (snd (send_request (\<lambda>k url rq. Inl (''boom '' @ [hex_digit k])) 3
       \<lparr>name = ''srv'', endpoint = ''http://h'', cost_per_call = 0\<rparr> ''tool'' [] None ''r1'')) = 3 \<and>
   sleeps (snd (send_request (\<lambda>k url rq. Inl (''boom '' @ [hex_digit k])) 3
       \<lparr>name = ''srv'', endpoint = ''http://h'', cost_per_call = 0\<rparr> ''tool'' [] None ''r1'')) = [1, 2] \<and>
   error (fst (send_request (\<lambda>k url rq. Inl (''boom '' @ [hex_digit k])) 3
       \<lparr>name = ''srv'', endpoint = ''http://h'', cost_per_call = 0\<rparr> ''tool'' [] None ''r1''))
     = Some ''boom 2'' \<and>
   cost (fst (send_request (\<lambda>k url rq. Inl (''boom '' @ [hex_digit k])) 3
       \<lparr>name = ''srv'', endpoint = ''http://h'', cost_per_call = 0\<rparr> ''tool'' [] None ''r1'')) = 0"
  using send_request_all_attempts_fail
          [of 3 "\<lambda>k url rq. Inl (''boom '' @ [hex_digit k])"
              "\<lparr>name = ''srv'', endpoint = ''http://h'', cost_per_call = 0\<rparr>" "''tool''" "[]" None
              "''r1''" "\<lambda>k. ''boom '' @ [hex_digit k]"]
  by (simp add: upt_conv_Cons hex_digit_def)

section \<open>Validation and the run\<close>

lemma validate_plan_error:
  "\<not> fst (validate_plan reg plan) \<Longrightarrow> \<exists>e. validate_plan reg plan = (False, Some e)"
  by (auto simp: validate_plan_def split: option.splits)

lemma json_dumps_intent_dump: "\<not> isl (json_dumps (PDict (intent_dump fr i)))"
  unfolding json_dumps_dict_isl
  by (auto simp: intent_dump_def json_dumps_str_list split: option.splits
        simp del: json_dumps.simps(6))

lemma add_node_written:
  assumes "cs sid = Some ch" and "\<not> isl (json_dumps (PDict d))"
  shows "\<exists>h. add_node cs sid ty d p u t
           = Inr (sid @ ''_'' @ u,
                  cs(sid \<mapsto> ch\<lparr>nodes := nodes ch @
                     [\<lparr>node_id = sid @ ''_'' @ u, node_type = ty, timestamp = t, data = d,
                       parent_ids = [p], hash = h\<rparr>]\<rparr>))"
  using assms
  by (cases "json_dumps (PDict d)")
     (auto simp: add_node_def Let_def compute_hash_fields simp del: json_dumps.simps)

text \<open>
  Claim C3, as stated: when the plan fails validation, no provenance node of the run is
  recorded before the validation outcome is decided. \<^verbatim>\<open>execute_async\<close> creates the session
  and records the intent before it generates and validates the plan: for a plan whose
  only step names the unregistered server \<open>ghost\<close>, the chain of the failed result holds
  the genesis node and the intent node.
\<close>

theorem validation_failure_counterexample:
  "\<not> fst (validate_plan (registry cfg_boom) (plan_on ''ghost'')) \<and>
   map_option (\<lambda>ch. map node_type (nodes ch))
     (res_provenance (fst (execute_async cfg_boom st_empty (Inr intent_demo)
        (\<lambda>i. Inr (plan_on ''ghost'')))))
     = Some [''genesis'', ''intent'']"
proof -
  let ?g = "\<lparr>session_id = ''u0'',
             nodes = [\<lparr>node_id = ''u0_genesis'', node_type = ''genesis'', timestamp = ''t0'',
                       data = [(''session_id'', PStr ''u0''), (''created_at'', PStr ''t0'')],
                       parent_ids = [],
                       hash = node_digest ''u0_genesis'' ''genesis'' ''t0''
                         (''{'' @ json_str ''created_at'' @ '': '' @ json_str ''t0'' @ '', '' @
                          json_str ''session_id'' @ '': '' @ json_str ''u0'' @ ''}'') []\<rparr>],
             root_hash = node_digest ''u0_genesis'' ''genesis'' ''t0''
                         (''{'' @ json_str ''created_at'' @ '': '' @ json_str ''t0'' @ '', '' @
                          json_str ''session_id'' @ '': '' @ json_str ''u0'' @ ''}'') []\<rparr>"
  have c: "create_session Map.empty None ''u0'' ''t0'' ''t0'' = (''u0'', [''u0'' \<mapsto> ?g])"
    by (simp add: create_session_def Let_def compute_hash_fields json_dumps_genesis_data
          del: json_dumps.simps)
  obtain h where a:
    "add_node [''u0'' \<mapsto> ?g] ''u0'' ''intent'' (intent_dump (\<lambda>r. ''0.0'') intent_demo)
       ''u0_genesis'' ''u1'' ''t1''
       = Inr (''u0_u1'',
              [''u0'' \<mapsto> ?g\<lparr>nodes := nodes ?g @
                 [\<lparr>node_id = ''u0_u1'', node_type = ''intent'', timestamp = ''t1'',
                   data = intent_dump (\<lambda>r. ''0.0'') intent_demo,
                   parent_ids = [''u0_genesis''], hash = h\<rparr>]\<rparr>])"
    using add_node_written [of "[''u0'' \<mapsto> ?g]" "''u0''" ?g
            "intent_dump (\<lambda>r. ''0.0'') intent_demo" "''intent''" "''u0_genesis''" "''u1''" "''t1''"]
          json_dumps_intent_dump [of "\<lambda>r. ''0.0''" intent_demo]
    by auto
  have v: "validate_plan [''srv'' \<mapsto> \<lparr>name = ''srv'', endpoint = ''http://srv'', cost_per_call = 0\<rparr>]
             (plan_on ''ghost'') = (False, Some (UnknownCapability ''ghost''))"
    by (simp add: validate_plan_def plan_on_def step_on_def intent_demo_def)
  show ?thesis
    using c a v
    by (simp add: execute_async_def cfg_boom_def st_empty_def record_intent_def Let_def
          hex_digit_def del: json_dumps.simps)
qed

text \<open>
  Claim C3, amended: when the generated plan fails validation, \<^verbatim>\<open>execute_async\<close> returns a
  failed result carrying the validation message, with no deliverables; no request is
  sent, and no plan, step or result node is recorded: the chain of the session, which
  was created and given its intent node before validation, holds exactly the genesis
  node and the intent node.
\<close>

theorem validation_failure_aborts:
  assumes gen: "generate_plan ui = Inr plan"
      and bad: "\<not> fst (validate_plan (registry cfg) plan)"
  shows "res_status (fst (execute_async cfg st (Inr ui) generate_plan)) = FAILED \<and>
         res_error (fst (execute_async cfg st (Inr ui) generate_plan))
           = map_option PlanInvalid (snd (validate_plan (registry cfg) plan)) \<and>
         res_error (fst (execute_async cfg st (Inr ui) generate_plan)) \<noteq> None \<and>
         res_deliverables (fst (execute_async cfg st (Inr ui) generate_plan)) = [] \<and>
         traffic (snd (execute_async cfg st (Inr ui) generate_plan)) = traffic st \<and>
         map_option (\<lambda>ch. map node_type (nodes ch))
           (res_provenance (fst (execute_async cfg st (Inr ui) generate_plan)))
           = Some [''genesis'', ''intent''] \<and>
         provenance (snd (execute_async cfg st (Inr ui) generate_plan))
           (res_session_id (fst (execute_async cfg st (Inr ui) generate_plan)))
           = res_provenance (fst (execute_async cfg st (Inr ui) generate_plan))"
proof -
  obtain e where e: "validate_plan (registry cfg) plan = (False, Some e)"
    using validate_plan_error [OF bad] by blast
  obtain sid cs0 where c:
    "create_session (provenance st) None (uuid4 cfg (reads st)) (utcnow cfg (reads st))
       (utcnow cfg (reads st)) = (sid, cs0)"
    by (cases "create_session (provenance st) None (uuid4 cfg (reads st))
                 (utcnow cfg (reads st)) (utcnow cfg (reads st))") auto
  obtain g where g: "cs0 sid = Some g" and gn: "map node_type (nodes g) = [''genesis'']"
    using c by (auto simp: create_session_def Let_def)
  obtain h where a:
    "add_node cs0 sid ''intent'' (intent_dump (float_repr cfg) ui) (sid @ ''_genesis'')
       (uuid4 cfg (Suc (reads st))) (utcnow cfg (Suc (reads st)))
       = Inr (sid @ ''_'' @ uuid4 cfg (Suc (reads st)),
              cs0(sid \<mapsto> g\<lparr>nodes := nodes g @
                 [\<lparr>node_id = sid @ ''_'' @ uuid4 cfg (Suc (reads st)), node_type = ''intent'',
                   timestamp = utcnow cfg (Suc (reads st)),
                   data = intent_dump (float_repr cfg) ui,
                   parent_ids = [sid @ ''_genesis''], hash = h\<rparr>]\<rparr>))"
    using add_node_written [of cs0 sid g "intent_dump (float_repr cfg) ui" "''intent''"
            "sid @ ''_genesis''" "uuid4 cfg (Suc (reads st))" "utcnow cfg (Suc (reads st))"]
          g json_dumps_intent_dump [of "float_repr cfg" ui]
    by blast
  show ?thesis
    using gen e gn
    by (simp add: execute_async_def record_intent_def Let_def c a del: json_dumps.simps)
qed

text \<open>
  Claim C3, amended, for a plan whose step depends on the unknown step \<open>nope\<close>: the result
  is failed with the dangling-dependency message, nothing was sent, and the chain holds
  the genesis and the intent node.
\<close>

theorem validation_failure_aborts_witness:
  "(\<lambda>i. Inr ((plan_on ''srv'')\<lparr>steps := [(step_on ''srv'')\<lparr>dependencies := [''nope'']\<rparr>]\<rparr>)) intent_demo
     = (Inr ((plan_on ''srv'')\<lparr>steps := [(step_on ''srv'')\<lparr>dependencies := [''nope'']\<rparr>]\<rparr>)
          :: string + orchestration_plan) \<and>
   \<not> fst (validate_plan (registry cfg_boom)
           ((plan_on ''srv'')\<lparr>steps := [(step_on ''srv'')\<lparr>dependencies := [''nope'']\<rparr>]\<rparr>)) \<and>
   res_status (fst (execute_async cfg_boom st_empty (Inr intent_demo)
       (\<lambda>i. Inr ((plan_on ''srv'')\<lparr>steps := [(step_on ''srv'')\<lparr>dependencies := [''nope'']\<rparr>]\<rparr>))))
     = FAILED \<and>
   res_error (fst (execute_async cfg_boom st_empty (Inr intent_demo)
       (\<lambda>i. Inr ((plan_on ''srv'')\<lparr>steps := [(step_on ''srv'')\<lparr>dependencies := [''nope'']\<rparr>]\<rparr>))))
     = Some (PlanInvalid (DanglingDependency ''nope'' ''design_1'')) \<and>
   traffic (snd (execute_async cfg_boom st_empty (Inr intent_demo)
       (\<lambda>i. Inr ((plan_on ''srv'')\<lparr>steps := [(step_on ''srv'')\<lparr>dependencies := [''nope'']\<rparr>]\<rparr>))))
     = [] \<and>
   map_option (\<lambda>ch. map node_type (nodes ch))
     (res_provenance (fst (execute_async cfg_boom st_empty (Inr intent_demo)
       (\<lambda>i. Inr ((plan_on ''srv'')\<lparr>steps := [(step_on ''srv'')\<lparr>dependencies := [''nope'']\<rparr>]\<rparr>)))))
     = Some [''genesis'', ''intent'']"
proof -
  let ?plan = "(plan_on ''srv'')\<lparr>steps := [(step_on ''srv'')\<lparr>dependencies := [''nope'']\<rparr>]\<rparr>"
  have v: "validate_plan (registry cfg_boom) ?plan
             = (False, Some (DanglingDependency ''nope'' ''design_1''))"
    by (simp add: validate_plan_def cfg_boom_def plan_on_def step_on_def intent_demo_def)
  have bad: "\<not> fst (validate_plan (registry cfg_boom) ?plan)"
    by (simp add: v)
  have gen: "(\<lambda>i. Inr ?plan) intent_demo = (Inr ?plan :: string + orchestration_plan)"
    by simp
  from validation_failure_aborts [of "\<lambda>i. Inr ?plan" intent_demo ?plan cfg_boom st_empty, OF gen bad]
  show ?thesis
    using v by (simp add: st_empty_def)
qed

section \<open>Step statuses\<close>

lemma add_node_tracked:
  assumes "cs sid \<noteq> None"
  shows "isl (add_node cs sid ty d p u t) = isl (json_dumps (PDict d)) \<and>
         (\<forall>nid cs'. add_node cs sid ty d p u t = Inr (nid, cs') \<longrightarrow> cs' sid \<noteq> None)"
  using assms
  by (cases "json_dumps (PDict d)")
     (auto simp: add_node_def Let_def compute_hash_fields simp del: json_dumps.simps)

lemma step_data_isl:
  "isl (json_dumps (PDict [(''step_id'', PStr i), (''server'', PStr s), (''tool'', PStr t),
                           (''parameters'', PDict ps)]))
     = isl (json_dumps (PDict ps))"
  unfolding json_dumps_dict_isl [of "[(''step_id'', PStr i), (''server'', PStr s),
              (''tool'', PStr t), (''parameters'', PDict ps)]"]
  by (simp del: json_dumps.simps(8))

lemma result_data_isl:
  "isl (json_dumps (PDict [(''step_id'', PStr i), (''result'', r), (''cost'', PFloat c),
                           (''error'', (case e of None \<Rightarrow> PNone | Some m \<Rightarrow> PStr m))]))
     = isl (json_dumps r)"
  unfolding json_dumps_dict_isl [of "[(''step_id'', PStr i), (''result'', r), (''cost'', PFloat c),
              (''error'', (case e of None \<Rightarrow> PNone | Some m \<Rightarrow> PStr m))]"]
  by (cases e) (simp_all del: json_dumps.simps(6) json_dumps.simps(7) json_dumps.simps(8))

lemma step_begin_tracked:
  assumes "provenance st sid \<noteq> None"
  shows "isl (fst (step_begin cfg st sid step parent))
           = (registry cfg (server_name step) = None \<or>
              isl (json_dumps (PDict (step_parameters step)))) \<and>
         provenance (snd (step_begin cfg st sid step parent)) sid \<noteq> None"
proof (cases "registry cfg (server_name step)")
  case None
  then show ?thesis using assms by (simp add: step_begin_def del: json_dumps.simps)
next
  case (Some server)
  let ?a = "add_node (provenance st) sid ''step''
       [(''step_id'', PStr (step_id step)), (''server'', PStr (server_name step)),
        (''tool'', PStr (tool_name step)), (''parameters'', PDict (step_parameters step))]
       parent (uuid4 cfg (reads st)) (utcnow cfg (reads st))"
  have i: "isl ?a = isl (json_dumps (PDict (step_parameters step)))"
    and t: "\<And>nid cs'. ?a = Inr (nid, cs') \<Longrightarrow> cs' sid \<noteq> None"
    using add_node_tracked [of "provenance st" sid "''step''"
            "[(''step_id'', PStr (step_id step)), (''server'', PStr (server_name step)),
              (''tool'', PStr (tool_name step)), (''parameters'', PDict (step_parameters step))]"
            parent "uuid4 cfg (reads st)" "utcnow cfg (reads st)"] assms
    by (simp_all add: step_data_isl del: json_dumps.simps)
  show ?thesis
  proof (cases ?a)
    case (Inl e)
    then show ?thesis
      using Some i assms by (simp add: step_begin_def record_step_def del: json_dumps.simps)
  next
    case (Inr r)
    obtain nid cs' where r: "r = (nid, cs')" by (cases r)
    show ?thesis
      using Some i Inr r t [of nid cs']
      by (simp add: step_begin_def record_step_def del: json_dumps.simps)
  qed
qed

lemma send_attempts_result:
  assumes "\<And>k url rq d. post k url rq = Inr d \<Longrightarrow> \<not> isl (json_dumps (reply_result d))"
  shows "\<not> isl (json_dumps (result (fst (send_attempts post m spec request atts tr))))"
proof (induction atts arbitrary: tr)
  case Nil
  then show ?case by simp
next
  case (Cons attempt rest)
  show ?case
  proof (cases "post attempt (endpoint spec @ ''/tools/'' @ req_tool_name request) request")
    case (Inl e)
    then show ?thesis
      using Cons.IH
      by (simp add: execute_request_def Let_def
            del: json_dumps.simps(6) json_dumps.simps(7) json_dumps.simps(8))
  next
    case (Inr d)
    then show ?thesis
      using assms [OF Inr] by (simp add: execute_request_def Let_def del: json_dumps.simps)
  qed
qed

lemma step_end_tracked:
  assumes tracked: "provenance st sid \<noteq> None"
      and json: "\<And>k url rq d. net cfg k url rq = Inr d \<Longrightarrow> \<not> isl (json_dumps (reply_result d))"
  shows "\<not> isl (fst (step_end cfg st sid step server nid rid)) \<and>
         provenance (snd (step_end cfg st sid step server nid rid)) sid \<noteq> None"
proof -
  obtain response tr where sr:
    "send_request (net cfg) (protocol_max_retries cfg) server (tool_name step)
       (step_parameters step) None rid = (response, tr)"
    by (cases "send_request (net cfg) (protocol_max_retries cfg) server (tool_name step)
       (step_parameters step) None rid") auto
  have "\<not> isl (json_dumps (result (fst (send_request (net cfg) (protocol_max_retries cfg) server
            (tool_name step) (step_parameters step) None rid))))"
    unfolding send_request_def Let_def by (rule send_attempts_result) (rule json)
  then have ok: "\<not> isl (json_dumps (result response))"
    by (simp add: sr del: json_dumps.simps)
  let ?d = "[(''step_id'', PStr (step_id step)), (''result'', result response),
         (''cost'', PFloat (FloatRepr (float_repr cfg (cost response)))),
         (''error'', (case error response of None \<Rightarrow> PNone | Some e \<Rightarrow> PStr e))]"
  let ?a = "add_node (provenance st) sid ''result'' ?d
        nid (uuid4 cfg (reads st)) (utcnow cfg (reads st))"
  have i: "\<not> isl ?a" and t: "\<And>n cs'. ?a = Inr (n, cs') \<Longrightarrow> cs' sid \<noteq> None"
    using add_node_tracked [of "provenance st" sid "''result''" ?d nid "uuid4 cfg (reads st)"
            "utcnow cfg (reads st)"] tracked ok
    by (simp_all add: result_data_isl del: json_dumps.simps)
  then obtain n cs' where a: "?a = Inr (n, cs')"
    by (cases ?a) auto
  show ?thesis
    using sr a t [OF a] by (simp add: step_end_def record_result_def Let_def del: json_dumps.simps)
qed

lemma begin_all_tracked:
  "provenance st sid \<noteq> None \<Longrightarrow>
   map isl (fst (begin_all cfg st sid parent grp))
     = map (\<lambda>s. registry cfg (server_name s) = None \<or>
                isl (json_dumps (PDict (step_parameters s)))) grp \<and>
   provenance (snd (begin_all cfg st sid parent grp)) sid \<noteq> None"
proof (induction grp arbitrary: st)
  case Nil
  then show ?case by simp
next
  case (Cons step rest)
  from step_begin_tracked [OF Cons.prems, of cfg step parent]
  have b: "isl (fst (step_begin cfg st sid step parent))
             = (registry cfg (server_name step) = None \<or>
                isl (json_dumps (PDict (step_parameters step))))"
    and t: "provenance (snd (step_begin cfg st sid step parent)) sid \<noteq> None"
    by simp_all
  from Cons.IH [OF t] b show ?case
    by (simp add: case_prod_beta Let_def del: json_dumps.simps)
qed

lemma end_all_tracked:
  assumes json: "\<And>k url rq d. net cfg k url rq = Inr d \<Longrightarrow> \<not> isl (json_dumps (reply_result d))"
  shows "provenance st sid \<noteq> None \<Longrightarrow>
   map isl (fst (end_all cfg st sid xs)) = map (\<lambda>x. isl (snd x)) xs \<and>
   provenance (snd (end_all cfg st sid xs)) sid \<noteq> None"
proof (induction xs arbitrary: st)
  case Nil
  then show ?case by simp
next
  case (Cons x xs)
  obtain step started where x: "x = (step, started)" by (cases x)
  show ?case
  proof (cases started)
    case (Inl e)
    with Cons.IH [OF Cons.prems] x show ?thesis
      by (simp add: case_prod_beta Let_def)
  next
    case (Inr sn)
    obtain server nid rid where sn: "sn = (server, nid, rid)" by (cases sn)
    from step_end_tracked [where step = step and server = server and nid = nid and rid = rid,
            OF Cons.prems json]
    have e: "\<not> isl (fst (step_end cfg st sid step server nid rid))"
      and t: "provenance (snd (step_end cfg st sid step server nid rid)) sid \<noteq> None"
      by simp_all
    from Cons.IH [OF t] e x Inr sn show ?thesis
      by (simp add: case_prod_beta Let_def)
  qed
qed

lemma run_all_tracked:
  assumes json: "\<And>k url rq d. net cfg k url rq = Inr d \<Longrightarrow> \<not> isl (json_dumps (reply_result d))"
  shows "provenance st sid \<noteq> None \<Longrightarrow>
   map isl (fst (run_all cfg st sid parent grp))
     = map (\<lambda>s. registry cfg (server_name s) = None \<or>
                isl (json_dumps (PDict (step_parameters s)))) grp \<and>
   provenance (snd (run_all cfg st sid parent grp)) sid \<noteq> None"
proof (induction grp arbitrary: st)
  case Nil
  then show ?case by simp
next
  case (Cons step rest)
  let ?b = "step_begin cfg st sid step parent"
  from step_begin_tracked [OF Cons.prems, of cfg step parent]
  have b: "isl (fst ?b) = (registry cfg (server_name step) = None \<or>
                isl (json_dumps (PDict (step_parameters step))))"
    and t: "provenance (snd ?b) sid \<noteq> None"
    by simp_all
  show ?case
  proof (cases "fst ?b")
    case (Inl e)
    with Cons.IH [OF t] b show ?thesis
      by (simp add: case_prod_beta Let_def del: json_dumps.simps)
  next
    case (Inr sn)
    obtain server nid rid where sn: "sn = (server, nid, rid)" by (cases sn)
    from step_end_tracked [where step = step and server = server and nid = nid and rid = rid,
            OF t json]
    have e: "\<not> isl (fst (step_end cfg (snd ?b) sid step server nid rid))"
      and t2: "provenance (snd (step_end cfg (snd ?b) sid step server nid rid)) sid \<noteq> None"
      by simp_all
    from Cons.IH [OF t2] e b Inr sn show ?thesis
      by (simp add: case_prod_beta Let_def del: json_dumps.simps)
  qed
qed

lemma length_begin_all: "length (fst (begin_all cfg st sid parent grp)) = length grp"
  by (induction grp arbitrary: st) (simp_all add: case_prod_beta Let_def)

lemma map_snd_of_zip:
  "length xs = length ys \<Longrightarrow> map (\<lambda>x. f (snd x)) (zip xs ys) = map f ys"
  by (induction xs ys rule: list_induct2) simp_all

lemma map_fst_of_zip:
  "length xs = length ys \<Longrightarrow> map (\<lambda>x. f (fst x)) (zip xs ys) = map f xs"
  by (induction xs ys rule: list_induct2) simp_all

lemma gather_group_tracked:
  assumes tracked: "provenance st sid \<noteq> None"
      and json: "\<And>k url rq d. net cfg k url rq = Inr d \<Longrightarrow> \<not> isl (json_dumps (reply_result d))"
  shows "map isl (fst (gather_group cfg st sid parent grp))
           = map (\<lambda>s. registry cfg (server_name s) = None \<or>
                      isl (json_dumps (PDict (step_parameters s)))) grp \<and>
         provenance (snd (gather_group cfg st sid parent grp)) sid \<noteq> None"
proof (cases "protocol_max_retries cfg \<le> 0")
  case True
  then show ?thesis
    using run_all_tracked [where parent = parent and grp = grp, OF json tracked]
    by (simp add: gather_group_def del: json_dumps.simps)
next
  case False
  let ?b = "begin_all cfg st sid parent grp"
  from begin_all_tracked [OF tracked, of cfg parent grp]
  have m: "map isl (fst ?b) = map (\<lambda>s. registry cfg (server_name s) = None \<or>
                      isl (json_dumps (PDict (step_parameters s)))) grp"
    and t: "provenance (snd ?b) sid \<noteq> None"
    by simp_all
  have len: "length (fst ?b) = length grp" by (rule length_begin_all)
  have "map (\<lambda>x. isl (snd x)) (zip grp (fst ?b)) = map isl (fst ?b)"
    using len by (simp add: map_snd_of_zip)
  with end_all_tracked [where xs = "zip grp (fst ?b)", OF json t] m False show ?thesis
    by (simp add: gather_group_def case_prod_beta Let_def del: json_dumps.simps)
qed

lemma process_results_steps:
  "map status (snd (snd (process_results xs d c)))
     = map (\<lambda>x. if isl (snd x) then FAILED else COMPLETED) xs \<and>
   map step_id (snd (snd (process_results xs d c))) = map (\<lambda>x. step_id (fst x)) xs"
proof (induction xs arbitrary: d c)
  case Nil
  then show ?case by simp
next
  case (Cons x xs)
  obtain step res where x: "x = (step, res)" by (cases x)
  show ?case
  proof (cases res)
    case (Inl e)
    with Cons.IH [of d c] x show ?thesis
      by (simp add: case_prod_beta Let_def)
  next
    case (Inr rc)
    obtain response k where rc: "rc = (response, k)" by (cases rc)
    from Cons.IH [of "dict_set (step_id step) (result response) d" "c + k"] x Inr rc
    show ?thesis
      by (simp add: case_prod_beta Let_def)
  qed
qed

lemma length_gather_group: "length (fst (gather_group cfg st sid parent grp)) = length grp"
proof -
  have "length (map isl (fst (end_all cfg s sid xs))) = length xs" for s xs
  proof (induction xs arbitrary: s)
    case Nil
    then show ?case by simp
  next
    case (Cons x xs)
    obtain step started where x: "x = (step, started)" by (cases x)
    show ?case
      using Cons.IH x by (cases started) (simp_all add: case_prod_beta Let_def)
  qed
  moreover have "length (fst (run_all cfg s sid parent g)) = length g" for s g
  proof (induction g arbitrary: s)
    case Nil
    then show ?case by simp
  next
    case (Cons step rest)
    show ?case
      using Cons.IH
      by (cases "fst (step_begin cfg s sid step parent)")
         (simp_all add: case_prod_beta Let_def)
  qed
  ultimately show ?thesis
    by (simp add: gather_group_def case_prod_beta length_begin_all)
qed

lemma group_statuses:
  assumes tracked: "provenance st sid \<noteq> None"
      and json: "\<And>k url rq d. net cfg k url rq = Inr d \<Longrightarrow> \<not> isl (json_dumps (reply_result d))"
  shows "map status (snd (snd (process_results
             (zip grp (fst (gather_group cfg st sid parent grp))) d c)))
           = map (expected_status cfg) grp \<and>
         map step_id (snd (snd (process_results
             (zip grp (fst (gather_group cfg st sid parent grp))) d c)))
           = map step_id grp"
proof -
  let ?rs = "fst (gather_group cfg st sid parent grp)"
  have len: "length grp = length ?rs" by (simp add: length_gather_group)
  have isl: "map isl ?rs = map (\<lambda>s. registry cfg (server_name s) = None \<or>
                      isl (json_dumps (PDict (step_parameters s)))) grp"
    using gather_group_tracked [OF tracked json] by simp
  have a: "map (\<lambda>x. if isl (snd x) then FAILED else COMPLETED) (zip grp ?rs)
             = map (\<lambda>b. if b then FAILED else COMPLETED) (map isl ?rs)"
    using len by (simp add: map_snd_of_zip [of grp ?rs "\<lambda>r. if isl r then FAILED else COMPLETED"] comp_def)
  have b: "map (\<lambda>x. step_id (fst x)) (zip grp ?rs) = map step_id grp"
    using len by (simp add: map_fst_of_zip)
  show ?thesis
    using process_results_steps [of "zip grp ?rs" d c] a b isl
    by (simp add: expected_status_def comp_def del: json_dumps.simps)
qed

lemma execute_groups_statuses:
  assumes json: "\<And>k url rq d. net cfg k url rq = Inr d \<Longrightarrow> \<not> isl (json_dumps (reply_result d))"
  shows "provenance st sid \<noteq> None \<Longrightarrow>
   map status (snd (snd (fst (execute_groups cfg st sid parent groups d c))))
     = map (expected_status cfg) (concat groups) \<and>
   map step_id (snd (snd (fst (execute_groups cfg st sid parent groups d c))))
     = map step_id (concat groups)"
proof (induction groups arbitrary: st d c)
  case Nil
  then show ?case by simp
next
  case (Cons grp rest)
  let ?g = "gather_group cfg st sid parent grp"
  let ?p = "process_results (zip grp (fst ?g)) d c"
  have t: "provenance (snd ?g) sid \<noteq> None"
    using gather_group_tracked [OF Cons.prems json] by simp
  from group_statuses [where grp = grp and parent = parent and d = d and c = c,
          OF Cons.prems json]
       Cons.IH [OF t, of "fst ?p" "fst (snd ?p)"]
  show ?case
    by (simp add: case_prod_beta Let_def)
qed

lemma concat_group_steps:
  "concat (group_steps ss groups cur pid) = concat groups @ cur @ ss"
  by (induction ss arbitrary: groups cur pid) simp_all

text \<open>
  Claim C4, amended: after \<^verbatim>\<open>_execute_plan\<close> on a tracked session, on a network whose
  replies are JSON, every step of the plan has a status of its own, in plan order:
  failed exactly when its task raised, which is when its server is not in the registry
  or \<^verbatim>\<open>record_step\<close> raised because \<^verbatim>\<open>json.dumps\<close> cannot write the step's parameters, and
  completed exactly when its task returned a response, whatever the response carries.
  No step is skipped because a sibling failed.
\<close>

theorem execute_plan_statuses:
  assumes "provenance st sid \<noteq> None"
      and "\<forall>k url rq d. net cfg k url rq = Inr d \<longrightarrow> \<not> isl (json_dumps (reply_result d))"
  shows "map status (snd (snd (fst (execute_plan cfg st sid plan plan_node_id))))
           = map (\<lambda>s. if registry cfg (server_name s) = None \<or>
                         isl (json_dumps (PDict (step_parameters s)))
                      then FAILED else COMPLETED)
               (steps plan) \<and>
         map step_id (snd (snd (fst (execute_plan cfg st sid plan plan_node_id))))
           = map step_id (steps plan)"
proof -
  have json: "\<And>k url rq d. net cfg k url rq = Inr d \<Longrightarrow> \<not> isl (json_dumps (reply_result d))"
    using assms(2) by blast
  show ?thesis
    using execute_groups_statuses [where parent = plan_node_id
            and groups = "group_steps (steps plan) [] [] None" and d = "[]" and c = 0,
            OF json assms(1)]
    by (simp add: execute_plan_def concat_group_steps expected_status_def [abs_def]
          del: json_dumps.simps)
qed

text \<open>
  Claim C4, as stated: a step is set to failed when the invoker returns a response
  carrying an error. On a network where every post fails, the one attempt allowed ends
  in a response with the error "boom", which the result node records, and the step is
  set to completed.
\<close>

theorem error_response_step_completed:
  "map status (snd (snd (fst (execute_plan cfg_boom st_s ''s'' (plan_on ''srv'') ''s_genesis''))))
     = [COMPLETED] \<and>
   traffic (snd (execute_plan cfg_boom st_s ''s'' (plan_on ''srv'') ''s_genesis''))
     = [\<lparr>attempts = 1, sleeps = []\<rparr>] \<and>
   map_option (\<lambda>ch. map (\<lambda>n. (node_type n, map_of (data n) ''error'')) (nodes ch))
     (provenance (snd (execute_plan cfg_boom st_s ''s'' (plan_on ''srv'') ''s_genesis'')) ''s'')
     = Some [(''genesis'', None), (''step'', None), (''result'', Some (PStr ''boom''))]"
  by (simp add: execute_plan_def gather_group_def step_begin_def step_end_def
        cfg_boom_def st_s_def plan_on_def step_on_def engine_s_chain
        record_step_def record_result_def add_node_def
        send_request_def make_request_def execute_request_def Let_def
        compute_hash_fields sort_by_key_def json_float_def)

text \<open>
  Claim C4, amended, for a group of three steps in the tracked session \<open>s\<close>, on a network
  that answers every post with a result and an error: the first step, on the
  unregistered server \<open>ghost\<close>, is failed; its sibling on \<open>srv\<close> is completed, although its
  response carries an error; the third, on \<open>srv\<close> with a set among its parameters, is
  failed.
\<close>

theorem execute_plan_statuses_witness:
  "provenance st_s ''s'' \<noteq> None \<and>
   net cfg_reply = (\<lambda>k url rq. Inr reply_done) \<and>
   json_dumps (reply_result reply_done) = Inr (json_str ''done'') \<and>
   registry cfg_reply ''ghost'' = None \<and>
   registry cfg_reply ''srv'' \<noteq> None \<and>
   map (\<lambda>s. (step_id s, server_name s, json_dumps (PDict (step_parameters s)))) (steps plan_three)
     = [(''design_1'', ''ghost'',
           Inr (''{'' @ json_str ''prompt'' @ '': '' @ json_str ''design it'' @ ''}'')),
        (''design_2'', ''srv'',
           Inr (''{'' @ json_str ''prompt'' @ '': '' @ json_str ''design it'' @ ''}'')),
        (''design_3'', ''srv'', Inl set_not_serializable)] \<and>
   map step_id (snd (snd (fst (execute_plan cfg_reply st_s ''s'' plan_three ''s_genesis''))))
     = [''design_1'', ''design_2'', ''design_3''] \<and>
   map status (snd (snd (fst (execute_plan cfg_reply st_s ''s'' plan_three ''s_genesis''))))
     = [FAILED, COMPLETED, FAILED]"
proof -
  have t: "provenance st_s ''s'' \<noteq> None"
    by (simp add: st_s_def engine_s_chain)
  have n: "net cfg_reply = (\<lambda>k url rq. Inr reply_done)"
    by (simp add: cfg_reply_def)
  have j: "\<forall>k url rq d. net cfg_reply k url rq = Inr d \<longrightarrow> \<not> isl (json_dumps (reply_result d))"
    by (simp add: n reply_done_def)
  from execute_plan_statuses [OF t j, of plan_three "''s_genesis''"]
  show ?thesis
    using t n
    by (simp add: plan_three_def step_on_def reply_done_def cfg_reply_def cfg_boom_def
          sort_by_key_def)
qed

end
